theory Spec2Isabelle
  imports Complex_Main "HOL-Library.Multiset"
begin

section \<open>Calendar types (types/calendar.ts)\<close>

text \<open>
  A JavaScript \<open>Date\<close> is modelled by its \<open>getTime()\<close> value, the number of
  milliseconds since the epoch, as an \<open>int\<close>; only valid dates are modelled.
\<close>

type_synonym Date = int

datatype CalendarSource = google | apple

datatype ComplexityTier = quick | standard | exploratory

record Metadata =
  location :: "string option"
  description :: "string option"
  recurrence :: "string option"

record CalendarEvent =
  event_id :: string
  title :: string
  startTime :: Date
  endTime :: Date
  isAllDay :: bool
  source :: CalendarSource
  metadata :: Metadata

record TierRange =
  range_min :: rat
  range_max :: rat

definition TIER_THRESHOLDS_exploratory :: TierRange where
  "TIER_THRESHOLDS_exploratory = \<lparr>range_min = 0, range_max = 35\<rparr>"

definition TIER_THRESHOLDS_standard :: TierRange where
  "TIER_THRESHOLDS_standard = \<lparr>range_min = 36, range_max = 65\<rparr>"

definition TIER_THRESHOLDS_quick :: TierRange where
  "TIER_THRESHOLDS_quick = \<lparr>range_min = 66, range_max = 100\<rparr>"

definition tierFromScore :: "rat \<Rightarrow> ComplexityTier" where
  "tierFromScore s =
     (if s \<le> range_max TIER_THRESHOLDS_exploratory then exploratory
      else if s \<le> range_max TIER_THRESHOLDS_standard then standard
      else quick)"

text \<open>\<open>rawData\<close> is a \<open>Record<string, unknown>\<close> whose values are all numbers here:
  an association list in insertion order.\<close>

record SignalResult =
  score :: rat
  reasoning :: string
  rawData :: "(string \<times> rat) list"

record ScoreSignal =
  name :: string
  weight :: rat
  compute :: "CalendarEvent list \<Rightarrow> Date \<Rightarrow> SignalResult"

record DayScore =
  date :: Date
  finalScore :: rat
  tier :: ComplexityTier
  signalBreakdown :: "SignalResult list"


section \<open>The JavaScript runtime the code runs on\<close>

text \<open>
  Three things the source relies on are not in the repository but in the runtime: the
  local time zone, the rounding of \<open>number\<close> arithmetic, and the order
  \<open>Array.prototype.sort\<close> produces when its comparator is not consistent. They are
  the fields of a record that every function depending on them takes as its first
  argument, so that a property proved for every runtime holds whatever the zone and the
  engine are.

  \<^item> \<open>toLocal\<close> is the language's \<open>LocalTime(t)\<close>: the local wall-clock reading, as a time
    value, of the instant \<open>t\<close>. \<open>fromLocal\<close> is \<open>UTC(t)\<close>: the instant of a local
    wall-clock reading (the language fixes which one where a reading is skipped or
    repeated at a zone transition).
  \<^item> \<open>fl\<close> rounds the exact result of one arithmetic operation to the \<open>number\<close> the
    operation returns. \<open>ieee_round\<close> below is the rounding of IEEE 754 doubles; the
    identity is exact arithmetic.
  \<^item> \<open>pick\<close> stands for the engine's sort on a comparator that is not consistent: the
    position, in the array given, of the element the sort leaves first.

  A \<open>number\<close> in the pickup optimizer is a rational or \<open>NaN\<close>; infinities do not arise
  there (no divisor is zero and no magnitude comes near the range of a double).
\<close>

datatype number = Num rat | NaN

record Runtime =
  toLocal :: "Date \<Rightarrow> int"
  fromLocal :: "int \<Rightarrow> Date"
  fl :: "rat \<Rightarrow> rat"
  pick :: "number list \<Rightarrow> nat"

text \<open>A zone with a fixed offset \<open>tz\<close> of local time from UTC, in milliseconds.\<close>

definition fixedOffsetZone :: "int \<Rightarrow> Runtime \<Rightarrow> Runtime" where
  "fixedOffsetZone tz rt = rt\<lparr>toLocal := (\<lambda>t. t + tz), fromLocal := (\<lambda>l. l - tz)\<rparr>"

text \<open>Arithmetic without rounding.\<close>

definition exactArithmetic :: "Runtime \<Rightarrow> Runtime" where
  "exactArithmetic rt = rt\<lparr>fl := (\<lambda>x. x)\<rparr>"

subsection \<open>Rounding to the nearest double\<close>

text \<open>The number of binary digits of a positive integer.\<close>

function bitlen :: "int \<Rightarrow> nat" where
  "bitlen n = (if n \<le> 0 then 0 else Suc (bitlen (n div 2)))"
  by pat_completeness auto
termination
  by (relation "measure nat") auto

declare bitlen.simps [simp del]

definition pow2 :: "int \<Rightarrow> rat" where
  "pow2 k = (if 0 \<le> k then 2 ^ nat k else 1 / 2 ^ nat (- k))"

text \<open>\<open>floorLog2 x\<close> is the exponent \<open>e\<close> with \<open>2^e \<le> x < 2^(e+1)\<close>, for \<open>x > 0\<close>:
  the difference of the bit lengths of numerator and denominator, or one less.\<close>

definition floorLog2 :: "rat \<Rightarrow> int" where
  "floorLog2 x =
     (let (p, q) = quotient_of x;
          a = int (bitlen p) - int (bitlen q)
      in if pow2 a \<le> x then a else a - 1)"

definition roundHalfEven :: "rat \<Rightarrow> int" where
  "roundHalfEven y =
     (let f = \<lfloor>y\<rfloor>;
          r = y - of_int f
      in if r < 1 / 2 then f
         else if 1 / 2 < r then f + 1
         else if even f then f else f + 1)"

text \<open>
  Round to nearest, ties to even, with 53 significant bits and the least exponent -1022
  (below it the spacing stays \<open>2^-1074\<close>). Overflow to infinity is not modelled.
\<close>

definition ieee_round :: "rat \<Rightarrow> rat" where
  "ieee_round x =
     (if x = 0 then 0
      else (let e = max (floorLog2 \<bar>x\<bar>) (- 1022);
                q = pow2 (e - 52)
            in of_int (roundHalfEven (x / q)) * q))"

text \<open>Arithmetic in IEEE 754 doubles.\<close>

definition ieeeDoubles :: "Runtime \<Rightarrow> Runtime" where
  "ieeeDoubles rt = rt\<lparr>fl := ieee_round\<rparr>"

subsection \<open>Operations on numbers\<close>

text \<open>An operation with a \<open>NaN\<close> operand gives \<open>NaN\<close>; otherwise the exact result is
  rounded. (A zero divisor does not occur in this code; it is given \<open>NaN\<close>.)\<close>

definition jsAdd :: "Runtime \<Rightarrow> number \<Rightarrow> number \<Rightarrow> number" where
  "jsAdd rt a b = (case (a, b) of (Num x, Num y) \<Rightarrow> Num (fl rt (x + y)) | _ \<Rightarrow> NaN)"

definition jsMul :: "Runtime \<Rightarrow> number \<Rightarrow> number \<Rightarrow> number" where
  "jsMul rt a b = (case (a, b) of (Num x, Num y) \<Rightarrow> Num (fl rt (x * y)) | _ \<Rightarrow> NaN)"

definition jsDiv :: "Runtime \<Rightarrow> number \<Rightarrow> number \<Rightarrow> number" where
  "jsDiv rt a b =
     (case (a, b) of
        (Num x, Num y) \<Rightarrow> (if y = 0 then NaN else Num (fl rt (x / y)))
      | _ \<Rightarrow> NaN)"


section \<open>The scoring engine (services/scoringEngine.ts)\<close>

text \<open>The arithmetic of the engine is modelled exactly, on rationals.\<close>

definition DINNER_PREP_START :: int where "DINNER_PREP_START = 17"
definition DINNER_PREP_END :: int where "DINNER_PREP_END = 19"
definition LUNCH_START :: int where "LUNCH_START = 11"
definition LUNCH_END :: int where "LUNCH_END = 13"
definition WAKING_HOURS :: rat where "WAKING_HOURS = 14"
definition BACK_TO_BACK_GAP_MINUTES :: rat where "BACK_TO_BACK_GAP_MINUTES = 15"

definition MAX_COMMITTED_HOURS_PTS :: rat where "MAX_COMMITTED_HOURS_PTS = 40"
definition MAX_BACK_TO_BACK_PTS :: rat where "MAX_BACK_TO_BACK_PTS = 25"
definition MAX_MEAL_CONFLICT_PTS :: rat where "MAX_MEAL_CONFLICT_PTS = 20"
definition MAX_FREE_BLOCK_PTS :: rat where "MAX_FREE_BLOCK_PTS = 15"

definition MS_PER_HOUR :: int where "MS_PER_HOUR = 1000 * 60 * 60"
definition MS_PER_DAY :: int where "MS_PER_DAY = 1000 * 60 * 60 * 24"

text \<open>\<open>Math.round\<close>: the nearest integer, a tie going up.\<close>

definition js_round :: "rat \<Rightarrow> rat" where
  "js_round x = of_int \<lfloor>x + 1 / 2\<rfloor>"

text \<open>
  \<open>localDayBounds\<close> reads the UTC calendar date of its argument, whose day number is
  \<open>date div MS_PER_DAY\<close>, and builds with \<open>new Date(year, month, day, ...)\<close> the instants
  at which the local clock shows 00:00:00.000 and 23:59:59.999 of that calendar date.
  (The \<open>Date\<close> constructor's remapping of the years 0 to 99 is outside the model.)
\<close>

definition localDayBounds :: "Runtime \<Rightarrow> Date \<Rightarrow> Date \<times> Date" where
  "localDayBounds rt d =
     (let midnight = (d div MS_PER_DAY) * MS_PER_DAY;
          dayStart = fromLocal rt midnight;
          dayEnd = fromLocal rt (midnight + MS_PER_DAY - 1)
      in (dayStart, dayEnd))"

definition eventsOnDate :: "Runtime \<Rightarrow> CalendarEvent list \<Rightarrow> Date \<Rightarrow> CalendarEvent list" where
  "eventsOnDate rt events d =
     (let (dayStart, dayEnd) = localDayBounds rt d
      in filter (\<lambda>e. startTime e \<le> dayEnd \<and> endTime e \<ge> dayStart) events)"

definition hoursOverlap :: "Date \<Rightarrow> Date \<Rightarrow> Date \<Rightarrow> Date \<Rightarrow> rat" where
  "hoursOverlap aStart aEnd bStart bEnd =
     (let overlapStart = (if aStart > bStart then aStart else bStart);
          overlapEnd = (if aEnd < bEnd then aEnd else bEnd);
          diffMs = overlapEnd - overlapStart
      in if diffMs > 0 then of_int diffMs / of_int MS_PER_HOUR else 0)"

text \<open>\<open>setHours(h, 0, 0, 0)\<close> on a copy of \<open>dayBase\<close>: the instant at which the local
  clock shows \<open>h\<close>:00 on the local calendar day of \<open>dayBase\<close>.\<close>

definition setHours :: "Runtime \<Rightarrow> Date \<Rightarrow> int \<Rightarrow> Date" where
  "setHours rt dayBase h =
     fromLocal rt ((toLocal rt dayBase div MS_PER_DAY) * MS_PER_DAY + h * MS_PER_HOUR)"

text \<open>
  \<open>[...dayEvents].sort((a, b) => a.startTime.getTime() - b.startTime.getTime())\<close>:
  \<open>Array.prototype.sort\<close> is stable, so the copy is the stable sort by start time.
\<close>

definition sortByStart :: "CalendarEvent list \<Rightarrow> CalendarEvent list" where
  "sortByStart dayEvents = sort_key startTime dayEvents"

subsection \<open>The four factors of TimeBlockSignal.compute\<close>

definition totalCommittedHours :: "CalendarEvent list \<Rightarrow> rat" where
  "totalCommittedHours sorted_evs =
     foldl (\<lambda>sum e. sum + of_int (endTime e - startTime e) / of_int MS_PER_HOUR) 0 sorted_evs"

definition committedPts :: "CalendarEvent list \<Rightarrow> rat" where
  "committedPts sorted_evs =
     min MAX_COMMITTED_HOURS_PTS
         ((totalCommittedHours sorted_evs / WAKING_HOURS) * MAX_COMMITTED_HOURS_PTS)"

text \<open>The loop \<open>for (i = 0; i < sorted.length - 1; i++)\<close> over adjacent pairs.\<close>

fun backToBackCount :: "CalendarEvent list \<Rightarrow> nat" where
  "backToBackCount (a # b # rest) =
     (if of_int (startTime b - endTime a) / (1000 * 60) \<le> BACK_TO_BACK_GAP_MINUTES
      then backToBackCount (b # rest) + 1
      else backToBackCount (b # rest))"
| "backToBackCount _ = 0"

definition maxPossibleB2B :: "CalendarEvent list \<Rightarrow> nat" where
  "maxPossibleB2B sorted_evs = max (length sorted_evs - 1) 1"

definition b2bPts :: "CalendarEvent list \<Rightarrow> rat" where
  "b2bPts sorted_evs =
     (of_nat (backToBackCount sorted_evs) / of_nat (maxPossibleB2B sorted_evs))
       * MAX_BACK_TO_BACK_PTS"

definition dinnerOverlapHours :: "Runtime \<Rightarrow> Date \<Rightarrow> CalendarEvent list \<Rightarrow> rat" where
  "dinnerOverlapHours rt d sorted_evs =
     (let dayBase = fst (localDayBounds rt d);
          dinnerStart = setHours rt dayBase DINNER_PREP_START;
          dinnerEnd = setHours rt dayBase DINNER_PREP_END
      in foldl (\<lambda>acc e. acc + hoursOverlap (startTime e) (endTime e) dinnerStart dinnerEnd)
           0 sorted_evs)"

definition lunchOverlapHours :: "Runtime \<Rightarrow> Date \<Rightarrow> CalendarEvent list \<Rightarrow> rat" where
  "lunchOverlapHours rt d sorted_evs =
     (let dayBase = fst (localDayBounds rt d);
          lunchStart = setHours rt dayBase LUNCH_START;
          lunchEnd = setHours rt dayBase LUNCH_END
      in foldl (\<lambda>acc e. acc + hoursOverlap (startTime e) (endTime e) lunchStart lunchEnd)
           0 sorted_evs)"

definition mealPts :: "Runtime \<Rightarrow> Date \<Rightarrow> CalendarEvent list \<Rightarrow> rat" where
  "mealPts rt d sorted_evs =
     (let dinnerWindowSize = of_int (DINNER_PREP_END - DINNER_PREP_START);
          lunchWindowSize = of_int (LUNCH_END - LUNCH_START);
          dinnerConflictRatio = min (dinnerOverlapHours rt d sorted_evs / dinnerWindowSize) 1;
          lunchConflictRatio = min (lunchOverlapHours rt d sorted_evs / lunchWindowSize) 1
      in (dinnerConflictRatio * 2 + lunchConflictRatio) / 3 * MAX_MEAL_CONFLICT_PTS)"

text \<open>The walk over the sorted events that collects the gaps inside the waking window;
  the state is the cursor and the list of free blocks found so far.\<close>

fun freeBlocksLoop :: "Date \<Rightarrow> Date \<Rightarrow> CalendarEvent list \<Rightarrow> Date \<times> rat list \<Rightarrow> Date \<times> rat list" where
  "freeBlocksLoop wakingStart wakingEnd [] (cursor, freeBlocks) = (cursor, freeBlocks)"
| "freeBlocksLoop wakingStart wakingEnd (e # es) (cursor, freeBlocks) =
     (let eventStart = max (startTime e) wakingStart;
          freeBlocks' = (if eventStart > cursor
                         then freeBlocks @ [of_int (eventStart - cursor) / of_int MS_PER_HOUR]
                         else freeBlocks);
          cursor' = max cursor (min (endTime e) wakingEnd)
      in freeBlocksLoop wakingStart wakingEnd es (cursor', freeBlocks'))"

definition freeBlocksOf :: "Runtime \<Rightarrow> Date \<Rightarrow> CalendarEvent list \<Rightarrow> rat list" where
  "freeBlocksOf rt d sorted_evs =
     (let dayBase = fst (localDayBounds rt d);
          wakingStart = setHours rt dayBase 7;
          wakingEnd = setHours rt dayBase 23;
          (cursor, freeBlocks) = freeBlocksLoop wakingStart wakingEnd sorted_evs (wakingStart, [])
      in if cursor < wakingEnd
         then freeBlocks @ [of_int (wakingEnd - cursor) / of_int MS_PER_HOUR]
         else freeBlocks)"

text \<open>\<open>Math.max(...freeBlocks)\<close> on a non-empty array.\<close>

definition math_max :: "rat list \<Rightarrow> rat" where
  "math_max xs = fold max (tl xs) (hd xs)"

definition largestFreeBlockHours :: "Runtime \<Rightarrow> Date \<Rightarrow> CalendarEvent list \<Rightarrow> rat" where
  "largestFreeBlockHours rt d sorted_evs =
     (let freeBlocks = freeBlocksOf rt d sorted_evs
      in if length freeBlocks > 0 then math_max freeBlocks else 0)"

definition freeBlockPts :: "Runtime \<Rightarrow> Date \<Rightarrow> CalendarEvent list \<Rightarrow> rat" where
  "freeBlockPts rt d sorted_evs =
     MAX_FREE_BLOCK_PTS * (1 - min (largestFreeBlockHours rt d sorted_evs / WAKING_HOURS) 1)"

definition rawScore :: "Runtime \<Rightarrow> Date \<Rightarrow> CalendarEvent list \<Rightarrow> rat" where
  "rawScore rt d sorted_evs =
     committedPts sorted_evs + b2bPts sorted_evs + mealPts rt d sorted_evs
       + freeBlockPts rt d sorted_evs"

subsection \<open>Number formatting\<close>

text \<open>\<open>String(n)\<close> for a natural number: its decimal digits.\<close>

definition digitChar :: "nat \<Rightarrow> char" where
  "digitChar n = ''0123456789'' ! (n mod 10)"

fun natToString :: "nat \<Rightarrow> string" where
  "natToString n = (if n < 10 then [digitChar n] else natToString (n div 10) @ [digitChar n])"

declare natToString.simps [simp del]

text \<open>
  \<open>x.toFixed(1)\<close>: the sign if \<open>x < 0\<close>, then the integer \<open>n\<close> nearest to \<open>|x| * 10\<close>
  (the larger one on a tie) printed with one digit after the point. Magnitudes of
  \<open>10^21\<close> and more, which print in exponent notation, are outside the model.
\<close>

definition toFixed1 :: "rat \<Rightarrow> string" where
  "toFixed1 x =
     (let n = nat \<lfloor>\<bar>x\<bar> * 10 + 1 / 2\<rfloor>
      in (if x < 0 then ''-'' else []) @ natToString (n div 10) @ ''.'' @ [digitChar n])"

text \<open>\<open>parts.join(sep)\<close>.\<close>

fun join :: "string \<Rightarrow> string list \<Rightarrow> string" where
  "join sep [] = []"
| "join sep [p] = p"
| "join sep (p # q # ps) = p @ sep @ join sep (q # ps)"

subsection \<open>TimeBlockSignal.compute\<close>

definition TimeBlockSignal_reasoning :: "Runtime \<Rightarrow> Date \<Rightarrow> CalendarEvent list \<Rightarrow> string" where
  "TimeBlockSignal_reasoning rt d sorted_evs =
     (let parts = [toFixed1 (totalCommittedHours sorted_evs) @ ''h committed''];
          parts = (if backToBackCount sorted_evs > 0
                   then parts @ [natToString (backToBackCount sorted_evs) @ '' back-to-back'']
                   else parts);
          parts = (if dinnerOverlapHours rt d sorted_evs > 0
                   then parts @ [''dinner prep conflict''] else parts);
          parts = (if lunchOverlapHours rt d sorted_evs > 0
                   then parts @ [''lunch conflict''] else parts);
          parts = parts @ [''largest free block ''
                           @ toFixed1 (largestFreeBlockHours rt d sorted_evs) @ ''h'']
      in join ''; '' parts)"

definition TimeBlockSignal_compute :: "Runtime \<Rightarrow> CalendarEvent list \<Rightarrow> Date \<Rightarrow> SignalResult" where
  "TimeBlockSignal_compute rt events d =
     (let dayEvents = eventsOnDate rt events d
      in if length dayEvents = 0
         then \<lparr>score = 0,
               reasoning = ''Completely free day'',
               rawData = [(''totalCommittedHours'', 0),
                          (''largestFreeBlockHours'', WAKING_HOURS),
                          (''backToBackCount'', 0)]\<rparr>
         else
           (let sorted_evs = sortByStart dayEvents;
                raw = rawScore rt d sorted_evs
            in \<lparr>score = js_round (min 100 (max 0 raw)),
                 reasoning = TimeBlockSignal_reasoning rt d sorted_evs,
                 rawData = [(''totalCommittedHours'', totalCommittedHours sorted_evs),
                            (''largestFreeBlockHours'', largestFreeBlockHours rt d sorted_evs),
                            (''backToBackCount'', of_nat (backToBackCount sorted_evs)),
                            (''dinnerOverlapHours'', dinnerOverlapHours rt d sorted_evs),
                            (''lunchOverlapHours'', lunchOverlapHours rt d sorted_evs),
                            (''committedPts'', committedPts sorted_evs),
                            (''b2bPts'', b2bPts sorted_evs),
                            (''mealPts'', mealPts rt d sorted_evs),
                            (''freeBlockPts'', freeBlockPts rt d sorted_evs)]\<rparr>))"

definition TimeBlockSignal :: "Runtime \<Rightarrow> ScoreSignal" where
  "TimeBlockSignal rt =
     \<lparr>name = ''time-block'', weight = 1, compute = TimeBlockSignal_compute rt\<rparr>"

subsection \<open>DayScoreEngine\<close>

text \<open>The constructor: the signals given, or one \<open>TimeBlockSignal\<close>.\<close>

definition DayScoreEngine :: "Runtime \<Rightarrow> ScoreSignal list option \<Rightarrow> ScoreSignal list" where
  "DayScoreEngine rt signals = (case signals of Some ss \<Rightarrow> ss | None \<Rightarrow> [TimeBlockSignal rt])"

text \<open>The inner loop over the signals; the state is \<open>signalResults\<close>,
  \<open>totalWeightedScore\<close> and \<open>totalWeight\<close>.\<close>

fun signalsLoop ::
  "ScoreSignal list \<Rightarrow> CalendarEvent list \<Rightarrow> Date \<Rightarrow> SignalResult list \<times> rat \<times> rat
     \<Rightarrow> SignalResult list \<times> rat \<times> rat" where
  "signalsLoop [] events d st = st"
| "signalsLoop (signal # rest) events d (signalResults, totalWeightedScore, totalWeight) =
     (let result = compute signal events d
      in signalsLoop rest events d
           (signalResults @ [result],
            totalWeightedScore + score result * weight signal,
            totalWeight + weight signal))"

text \<open>
  \<open>date.setDate(date.getDate() + i)\<close> on a copy of \<open>weekStart\<close>: the local wall-clock
  reading of \<open>weekStart\<close> moved by \<open>i\<close> calendar days, turned back into an instant. In a
  zone of fixed offset that is \<open>weekStart\<close> plus \<open>i\<close> times 24 hours; across a
  daylight-saving change it is an hour less or more.
\<close>

definition addLocalDays :: "Runtime \<Rightarrow> Date \<Rightarrow> nat \<Rightarrow> Date" where
  "addLocalDays rt t i = fromLocal rt (toLocal rt t + int i * MS_PER_DAY)"

text \<open>The body of the outer loop for day \<open>i\<close>.\<close>

definition scoreWeekDay ::
  "Runtime \<Rightarrow> ScoreSignal list \<Rightarrow> CalendarEvent list \<Rightarrow> Date \<Rightarrow> nat \<Rightarrow> DayScore" where
  "scoreWeekDay rt signals events weekStart i =
     (let d = addLocalDays rt weekStart i;
          (signalResults, totalWeightedScore, totalWeight) = signalsLoop signals events d ([], 0, 0);
          final = (if totalWeight > 0 then js_round (totalWeightedScore / totalWeight) else 0)
      in \<lparr>date = d, finalScore = final, tier = tierFromScore final,
           signalBreakdown = signalResults\<rparr>)"

definition scoreWeek ::
  "Runtime \<Rightarrow> ScoreSignal list \<Rightarrow> CalendarEvent list \<Rightarrow> Date \<Rightarrow> DayScore list" where
  "scoreWeek rt signals events weekStart = map (scoreWeekDay rt signals events weekStart) [0..<7]"


section \<open>The shelf-life table (data/ingredientShelfLife.ts)\<close>

datatype ShelfLifeCategory = short | medium | long

record ShelfLifeEntry =
  category :: ShelfLifeCategory
  minDays :: rat
  maxDays :: rat

definition SHELF_LIFE :: "(string \<times> ShelfLifeEntry) list" where
  "SHELF_LIFE =
    [(''Fresh Herbs'', \<lparr>category = short, minDays = 1, maxDays = 3\<rparr>),
     (''Berries'', \<lparr>category = short, minDays = 1, maxDays = 3\<rparr>),
     (''Seafood'', \<lparr>category = short, minDays = 1, maxDays = 2\<rparr>),
     (''Fish'', \<lparr>category = short, minDays = 1, maxDays = 2\<rparr>),
     (''Leafy Greens'', \<lparr>category = short, minDays = 2, maxDays = 4\<rparr>),
     (''Fresh Produce'', \<lparr>category = medium, minDays = 4, maxDays = 6\<rparr>),
     (''Produce'', \<lparr>category = medium, minDays = 4, maxDays = 6\<rparr>),
     (''Fruits'', \<lparr>category = medium, minDays = 3, maxDays = 5\<rparr>),
     (''Vegetables'', \<lparr>category = medium, minDays = 4, maxDays = 6\<rparr>),
     (''Dairy'', \<lparr>category = medium, minDays = 5, maxDays = 7\<rparr>),
     (''Eggs'', \<lparr>category = medium, minDays = 7, maxDays = 14\<rparr>),
     (''Poultry'', \<lparr>category = medium, minDays = 1, maxDays = 3\<rparr>),
     (''Meat'', \<lparr>category = medium, minDays = 2, maxDays = 4\<rparr>),
     (''Deli'', \<lparr>category = medium, minDays = 3, maxDays = 5\<rparr>),
     (''Bakery'', \<lparr>category = medium, minDays = 3, maxDays = 5\<rparr>),
     (''Bread'', \<lparr>category = medium, minDays = 3, maxDays = 5\<rparr>),
     (''Pantry'', \<lparr>category = long, minDays = 30, maxDays = 365\<rparr>),
     (''Canned Goods'', \<lparr>category = long, minDays = 30, maxDays = 365\<rparr>),
     (''Grains'', \<lparr>category = long, minDays = 30, maxDays = 180\<rparr>),
     (''Pasta'', \<lparr>category = long, minDays = 30, maxDays = 365\<rparr>),
     (''Rice'', \<lparr>category = long, minDays = 30, maxDays = 365\<rparr>),
     (''Spices'', \<lparr>category = long, minDays = 90, maxDays = 365\<rparr>),
     (''Condiments'', \<lparr>category = long, minDays = 30, maxDays = 180\<rparr>),
     (''Oils'', \<lparr>category = long, minDays = 30, maxDays = 180\<rparr>),
     (''Frozen'', \<lparr>category = long, minDays = 30, maxDays = 180\<rparr>),
     (''Snacks'', \<lparr>category = long, minDays = 14, maxDays = 90\<rparr>),
     (''Beverages'', \<lparr>category = long, minDays = 14, maxDays = 90\<rparr>),
     (''Nuts'', \<lparr>category = long, minDays = 14, maxDays = 60\<rparr>),
     (''Baking'', \<lparr>category = long, minDays = 30, maxDays = 365\<rparr>)]"

definition DEFAULT_SHELF_LIFE :: ShelfLifeEntry where
  "DEFAULT_SHELF_LIFE = \<lparr>category = medium, minDays = 4, maxDays = 6\<rparr>"

text \<open>
  \<open>SHELF_LIFE[category] ?? DEFAULT_SHELF_LIFE\<close> reads a property of an object literal.
  The read finds the table's own keys and, for any other name, the members the object
  inherits from \<open>Object.prototype\<close>; such a member is neither \<open>null\<close> nor \<open>undefined\<close>,
  so \<open>??\<close> does not replace it by the default, and what \<open>getShelfLife\<close> returns is then
  not a shelf-life entry: its \<open>category\<close> and \<open>maxDays\<close> are \<open>undefined\<close>.
\<close>

definition OBJECT_PROTOTYPE_KEYS :: "string list" where
  "OBJECT_PROTOTYPE_KEYS =
     [''constructor'', ''__defineGetter__'', ''__defineSetter__'', ''hasOwnProperty'',
      ''__lookupGetter__'', ''__lookupSetter__'', ''isPrototypeOf'', ''propertyIsEnumerable'',
      ''toString'', ''valueOf'', ''__proto__'', ''toLocaleString'']"

datatype ShelfLifeLookup = Entry ShelfLifeEntry | InheritedMember

definition getShelfLife :: "string \<Rightarrow> ShelfLifeLookup" where
  "getShelfLife c =
     (case map_of SHELF_LIFE c of
        Some e \<Rightarrow> Entry e
      | None \<Rightarrow> if c \<in> set OBJECT_PROTOTYPE_KEYS then InheritedMember
                else Entry DEFAULT_SHELF_LIFE)"

text \<open>\<open>shelfLife.maxDays\<close> where it is used as a number (\<open>undefined\<close> acts as \<open>NaN\<close> in
  the comparison and the subtraction that read it), and \<open>sl.category\<close>.\<close>

definition lookup_maxDays :: "ShelfLifeLookup \<Rightarrow> number" where
  "lookup_maxDays sl = (case sl of Entry e \<Rightarrow> Num (maxDays e) | InheritedMember \<Rightarrow> NaN)"

definition lookup_category :: "ShelfLifeLookup \<Rightarrow> ShelfLifeCategory option" where
  "lookup_category sl = (case sl of Entry e \<Rightarrow> Some (category e) | InheritedMember \<Rightarrow> None)"


section \<open>The pickup optimizer (services/pickupOptimizer.ts)\<close>

text \<open>The literals \<open>0.6\<close> and \<open>0.4\<close> denote the numbers nearest to 6/10 and 4/10.\<close>

definition CALENDAR_WEIGHT :: "Runtime \<Rightarrow> rat" where "CALENDAR_WEIGHT rt = fl rt (6 / 10)"
definition FRESHNESS_WEIGHT :: "Runtime \<Rightarrow> rat" where "FRESHNESS_WEIGHT rt = fl rt (4 / 10)"

text \<open>\<open>Pick<GroceryItem, 'item_name' | 'category'>\<close>; the category is optional.\<close>

record GroceryItem =
  item_name :: string
  item_category :: "string option"

record PerishableMealDate =
  meal_category :: string
  plannedDate :: Date

record PickupRecommendation =
  day :: Date
  dayIndex :: nat
  pickup_reasoning :: string
  pickup_score :: number

datatype error = Error string

text \<open>The score one meal pushes onto \<open>scores\<close> in the loop of \<open>computeFreshnessScore\<close>.
  With \<open>maxDays\<close> undefined the comparison \<open>gapDays <= maxDays\<close> is false and the last
  branch computes \<open>NaN\<close>.\<close>

definition mealFreshness :: "Runtime \<Rightarrow> Date \<Rightarrow> PerishableMealDate \<Rightarrow> number" where
  "mealFreshness rt pickupDate meal =
     (let shelfLife = getShelfLife (meal_category meal);
          gapMs = fl rt (of_int (plannedDate meal - pickupDate));
          gapDays = fl rt (gapMs / of_int MS_PER_DAY)
      in if gapDays < 0 then Num 0
         else (case lookup_maxDays shelfLife of
                 Num shelfMax \<Rightarrow>
                   if gapDays \<le> shelfMax
                   then (let freshness = fl rt (100 - fl rt (fl rt (gapDays / shelfMax) * 50))
                         in Num (max 0 freshness))
                   else (let overshoot = fl rt (gapDays - shelfMax);
                             penalty = min 100 (fl rt (overshoot * 20))
                         in Num (max 0 (fl rt (50 - penalty))))
               | NaN \<Rightarrow> NaN))"

fun freshnessLoop :: "Runtime \<Rightarrow> Date \<Rightarrow> PerishableMealDate list \<Rightarrow> number list \<Rightarrow> number list" where
  "freshnessLoop rt pickupDate [] scores = scores"
| "freshnessLoop rt pickupDate (meal # rest) scores =
     freshnessLoop rt pickupDate rest (scores @ [mealFreshness rt pickupDate meal])"

definition computeFreshnessScore ::
  "Runtime \<Rightarrow> Date \<Rightarrow> GroceryItem list \<Rightarrow> PerishableMealDate list \<Rightarrow> number" where
  "computeFreshnessScore rt pickupDate groceryItems perishableMealDates =
     (if length perishableMealDates = 0 then Num 50
      else (let scores = freshnessLoop rt pickupDate perishableMealDates []
            in jsDiv rt (foldl (\<lambda>sum s. jsAdd rt sum s) (Num 0) scores)
                        (Num (of_nat (length scores)))))"

text \<open>\<open>toLocaleDateString('en-US', {weekday: 'long'})\<close>: the weekday of the local
  calendar day; day number 0 (1 January 1970) was a Thursday.\<close>

definition weekdayName :: "Runtime \<Rightarrow> Date \<Rightarrow> string" where
  "weekdayName rt d =
     [''Sunday'', ''Monday'', ''Tuesday'', ''Wednesday'', ''Thursday'', ''Friday'', ''Saturday'']
       ! nat ((toLocal rt d div MS_PER_DAY + 4) mod 7)"

definition buildReasoning ::
  "Runtime \<Rightarrow> DayScore \<Rightarrow> rat \<Rightarrow> number \<Rightarrow> GroceryItem list \<Rightarrow> PerishableMealDate list \<Rightarrow> string" where
  "buildReasoning rt dayScore calendarScore freshnessScore groceryItems perishableMealDates =
     (let dayName = weekdayName rt (date dayScore);
          parts = [dayName @ '' is recommended for grocery pickup.''];
          parts = parts @
            [if calendarScore \<ge> 70 then ''Your calendar is very open that day.''
             else if calendarScore \<ge> 40 then ''Your calendar has moderate availability.''
             else ''Your calendar is busier, but freshness needs make this the best trade-off.''];
          shortLife = filter (\<lambda>m. lookup_category (getShelfLife (meal_category m)) = Some short)
                        perishableMealDates;
          parts = (if length shortLife > 0
                   then (let categories = rev (remdups (rev (map meal_category shortLife)))
                         in parts @ [''Perishable items ('' @ join '', '' categories
                                     @ '') stay freshest with this timing.''])
                   else parts)
      in join '' '' parts)"

text \<open>One element of the array \<open>scored\<close>. The calendar score is always a rational.\<close>

record Scored =
  dayScore :: DayScore
  index :: nat
  calendarScore :: rat
  freshnessScore :: number
  combined :: number

definition scoreCandidate ::
  "Runtime \<Rightarrow> GroceryItem list \<Rightarrow> PerishableMealDate list \<Rightarrow> DayScore \<Rightarrow> nat \<Rightarrow> Scored" where
  "scoreCandidate rt groceryItems perishableMealDates ds i =
     (let calendar = fl rt (100 - finalScore ds);
          freshness = computeFreshnessScore rt (date ds) groceryItems perishableMealDates;
          comb = jsAdd rt (jsMul rt (Num (CALENDAR_WEIGHT rt)) (Num calendar))
                          (jsMul rt (Num (FRESHNESS_WEIGHT rt)) freshness)
      in \<lparr>dayScore = ds, index = i, calendarScore = calendar, freshnessScore = freshness,
           combined = comb\<rparr>)"

text \<open>
  \<open>recommendPickupDay\<close> works on four arrays: its three arguments and the local
  \<open>scored\<close>, which \<open>weekScores.map\<close> allocates and \<open>scored.sort\<close> reorders in place.
  The state holds all four, and the function returns the state it leaves behind together
  with its result.
\<close>

record OptimizerArrays =
  weekScores :: "DayScore list"
  groceryItems :: "GroceryItem list"
  perishableMealDates :: "PerishableMealDate list"
  scored :: "Scored list"

definition mapCandidates :: "Runtime \<Rightarrow> OptimizerArrays \<Rightarrow> OptimizerArrays" where
  "mapCandidates rt st =
     st\<lparr>scored := map (\<lambda>(ds, i). scoreCandidate rt (groceryItems st) (perishableMealDates st) ds i)
                     (zip (weekScores st) [0..<length (weekScores st)])\<rparr>"

primrec isNumber :: "number \<Rightarrow> bool" where
  "isNumber (Num v) = True"
| "isNumber NaN = False"

primrec numbersOf :: "number list \<Rightarrow> rat list" where
  "numbersOf [] = []"
| "numbersOf (c # cs) = (case c of Num v \<Rightarrow> v # numbersOf cs | NaN \<Rightarrow> numbersOf cs)"

text \<open>The comparator \<open>(a, b) => b.combined - a.combined\<close> returns zero or \<open>NaN\<close> (which
  the sort reads as zero) for every pair exactly when all combined scores that are
  numbers are equal.\<close>

definition comparatorAlwaysZero :: "number list \<Rightarrow> bool" where
  "comparatorAlwaysZero cs =
     (case numbersOf cs of [] \<Rightarrow> True | v # vs \<Rightarrow> list_all (\<lambda>w. w = v) vs)"

text \<open>
  \<open>scored.sort((a, b) => b.combined - a.combined)\<close>. The difference of two numbers is
  zero only when they are equal and has the sign of the exact difference, so when every
  combined score is a number the comparator is consistent and the sort, which is stable,
  is the stable sort by descending combined score. When some score is \<open>NaN\<close> and the
  comparator is zero on every pair, a stable sort leaves the array as it is. Otherwise the
  comparator is not consistent and the order is the implementation's: the element first
  is the one at position \<open>pick\<close>, and the rest (which nothing reads) keeps its order.
\<close>

definition sortScored :: "Runtime \<Rightarrow> OptimizerArrays \<Rightarrow> OptimizerArrays" where
  "sortScored rt st =
     st\<lparr>scored :=
          (let xs = scored st;
               cs = map combined xs
           in if list_all isNumber cs
              then sort_key (\<lambda>c. case combined c of Num v \<Rightarrow> - v | NaN \<Rightarrow> 0) xs
              else if comparatorAlwaysZero cs then xs
              else (let k = pick rt cs mod length xs
                    in xs ! k # (take k xs @ drop (Suc k) xs)))\<rparr>"

definition recommendPickupDay_run ::
  "Runtime \<Rightarrow> OptimizerArrays \<Rightarrow> error + (PickupRecommendation \<times> OptimizerArrays)" where
  "recommendPickupDay_run rt st0 =
     (if length (weekScores st0) = 0
      then Inl (Error ''weekScores must contain at least one day'')
      else (let st1 = mapCandidates rt st0;
                st2 = sortScored rt st1
            in case scored st2 of
                 [] \<Rightarrow> Inl (Error ''TypeError: best is undefined'')
               | best # _ \<Rightarrow>
                   Inr (\<lparr>day = date (dayScore best),
                         dayIndex = index best,
                         pickup_reasoning =
                           buildReasoning rt (dayScore best) (calendarScore best)
                             (freshnessScore best) (groceryItems st2) (perishableMealDates st2),
                         pickup_score = combined best\<rparr>, st2)))"

definition recommendPickupDay ::
  "Runtime \<Rightarrow> DayScore list \<Rightarrow> GroceryItem list \<Rightarrow> PerishableMealDate list
     \<Rightarrow> error + PickupRecommendation" where
  "recommendPickupDay rt ws items meals =
     (case recommendPickupDay_run rt
             \<lparr>weekScores = ws, groceryItems = items, perishableMealDates = meals, scored = []\<rparr> of
        Inl e \<Rightarrow> Inl e
      | Inr (r, st) \<Rightarrow> Inr r)"


section \<open>Reference definitions in the words of the specification\<close>

text \<open>
  The specification describes some computations differently from the code. Each is
  written down here as the specification words it, in exact arithmetic, under a name that
  starts with \<open>spec_\<close>, to be compared with the definition taken from the source.
\<close>

text \<open>Committed hours of a day as "that event's overlap hours with that particular day",
  summed over the events of the day; the day runs from its local midnight to the next.\<close>

definition spec_committedHours :: "Runtime \<Rightarrow> CalendarEvent list \<Rightarrow> Date \<Rightarrow> rat" where
  "spec_committedHours rt events d =
     (let dayStart = fst (localDayBounds rt d)
      in sum_list (map (\<lambda>e. hoursOverlap (startTime e) (endTime e) dayStart (dayStart + MS_PER_DAY))
                       (eventsOnDate rt events d)))"

text \<open>The lookup "defaulting to a medium 4-6 day entry for unrecognized categories".\<close>

definition spec_getShelfLife :: "string \<Rightarrow> ShelfLifeEntry" where
  "spec_getShelfLife c = (case map_of SHELF_LIFE c of Some e \<Rightarrow> e | None \<Rightarrow> DEFAULT_SHELF_LIFE)"

text \<open>"The shortest shelf-life window across all grocery items with a known category
  (falling back to 30 days if none have categories)", read on the lower end of the window.\<close>

definition spec_shortestShelfDays :: "GroceryItem list \<Rightarrow> rat" where
  "spec_shortestShelfDays items =
     (case concat (map (\<lambda>it. case item_category it of None \<Rightarrow> []
                                | Some c \<Rightarrow> [minDays (spec_getShelfLife c)]) items) of
        [] \<Rightarrow> 30
      | w # ws \<Rightarrow> fold min ws w)"

text \<open>"The single latest date any short- or medium-category perishable ingredient is
  needed".\<close>

definition spec_latestPerishableDate :: "PerishableMealDate list \<Rightarrow> Date option" where
  "spec_latestPerishableDate meals =
     (case map plannedDate
             (filter (\<lambda>m. category (spec_getShelfLife (meal_category m)) = short
                           \<or> category (spec_getShelfLife (meal_category m)) = medium) meals) of
        [] \<Rightarrow> None
      | t # ts \<Rightarrow> Some (fold max ts t))"

text \<open>\<open>gapDays = floor((latestPerishableDate - candidateDate) / 1 day)\<close>.\<close>

definition spec_gapDays :: "Date \<Rightarrow> Date \<Rightarrow> int" where
  "spec_gapDays latest candidate = (latest - candidate) div MS_PER_DAY"

text \<open>Freshness 0 for a negative gap, from 100 at gap 0 linearly down to 50 at the
  shortest shelf life, and below 50 with a floor at 0 beyond it (the specification gives no
  slope for the last branch; the code's 20 points a day is used). Without a short or medium
  perishable date the neutral 50 stands.\<close>

definition spec_freshnessScore :: "Date \<Rightarrow> GroceryItem list \<Rightarrow> PerishableMealDate list \<Rightarrow> rat" where
  "spec_freshnessScore candidate items meals =
     (case spec_latestPerishableDate meals of
        None \<Rightarrow> 50
      | Some latest \<Rightarrow>
          (let gapDays = of_int (spec_gapDays latest candidate);
               shortestShelfDays = spec_shortestShelfDays items
           in if gapDays < 0 then 0
              else if gapDays \<le> shortestShelfDays
              then 100 - (gapDays / shortestShelfDays) * 50
              else max 0 (50 - (gapDays - shortestShelfDays) * 20)))"

text \<open>The combined score "0.6 * availability + 0.4 * freshness" as a formula.\<close>

definition spec_combinedScore :: "rat \<Rightarrow> rat \<Rightarrow> rat" where
  "spec_combinedScore availability freshness = 6 / 10 * availability + 4 / 10 * freshness"


section \<open>Sample inputs (from the test suites)\<close>

text \<open>A runtime in the zone UTC with the arithmetic of doubles.\<close>

definition nodeUTC :: Runtime where
  "nodeUTC = \<lparr>toLocal = (\<lambda>t. t), fromLocal = (\<lambda>l. l), fl = ieee_round, pick = (\<lambda>cs. 0)\<rparr>"


text \<open>\<open>makeEvent\<close> of scoringEngine.test.ts, with the two instants already parsed.\<close>

definition makeEvent :: "Date \<Rightarrow> Date \<Rightarrow> CalendarEvent" where
  "makeEvent s e =
     \<lparr>event_id = ''evt'', title = ''Meeting'', startTime = s, endTime = e, isAllDay = False,
      source = google,
      metadata = \<lparr>location = None, description = None, recurrence = None\<rparr>\<rparr>"

text \<open>\<open>new Date('2025-02-17')\<close>, a Monday, 00:00 UTC.\<close>

definition baseDate :: Date where
  "baseDate = 1739750400000"

definition atHour :: "int \<Rightarrow> Date" where
  "atHour h = baseDate + h * MS_PER_HOUR"

definition atTime :: "int \<Rightarrow> int \<Rightarrow> Date" where
  "atTime h m = baseDate + h * MS_PER_HOUR + m * (1000 * 60)"

text \<open>The six meetings of the test "scores a packed day high".\<close>

definition packedDay :: "CalendarEvent list" where
  "packedDay =
     [makeEvent (atTime 8 0) (atTime 10 0),
      makeEvent (atTime 10 0) (atTime 12 0),
      makeEvent (atTime 12 30) (atTime 14 0),
      makeEvent (atTime 14 0) (atTime 16 0),
      makeEvent (atTime 16 0) (atTime 18 0),
      makeEvent (atTime 19 0) (atTime 20 0)]"

text \<open>One meeting from 22:00 on Monday to 02:00 on Tuesday.\<close>

definition midnightEvent :: CalendarEvent where
  "midnightEvent = makeEvent (atHour 22) (atHour 26)"

text \<open>An all-day event on Monday as the Google provider builds it: from
  \<open>new Date('2025-02-17')\<close> to \<open>new Date('2025-02-18')\<close>, the end date being exclusive.\<close>

definition allDayMonday :: CalendarEvent where
  "allDayMonday = (makeEvent baseDate (baseDate + MS_PER_DAY))\<lparr>isAllDay := True\<rparr>"

text \<open>\<open>makeDayScore\<close> and the week of pickupOptimizer.test.ts.\<close>

definition makeDayScore :: "Date \<Rightarrow> rat \<Rightarrow> ComplexityTier \<Rightarrow> DayScore" where
  "makeDayScore d s t = \<lparr>date = d, finalScore = s, tier = t, signalBreakdown = []\<rparr>"

definition sampleWeek :: "DayScore list" where
  "sampleWeek =
     [makeDayScore baseDate 80 quick,
      makeDayScore (baseDate + 1 * MS_PER_DAY) 50 standard,
      makeDayScore (baseDate + 2 * MS_PER_DAY) 20 exploratory,
      makeDayScore (baseDate + 3 * MS_PER_DAY) 60 standard,
      makeDayScore (baseDate + 4 * MS_PER_DAY) 30 exploratory,
      makeDayScore (baseDate + 5 * MS_PER_DAY) 10 exploratory,
      makeDayScore (baseDate + 6 * MS_PER_DAY) 15 exploratory]"

definition makeGroceryItem :: "string \<Rightarrow> string \<Rightarrow> GroceryItem" where
  "makeGroceryItem n c = \<lparr>item_name = n, item_category = Some c\<rparr>"

text \<open>A week whose second and third day tie for the best combined score.\<close>

definition tieWeek :: "DayScore list" where
  "tieWeek =
     [makeDayScore baseDate 50 standard,
      makeDayScore (baseDate + 1 * MS_PER_DAY) 10 exploratory,
      makeDayScore (baseDate + 2 * MS_PER_DAY) 10 exploratory]"

text \<open>A week in which, with seafood planned for its second day, the first and the third
  day have the same combined score by the formula, 273/5.\<close>

definition roundingWeek :: "DayScore list" where
  "roundingWeek =
     [makeDayScore baseDate 59 standard,
      makeDayScore (baseDate + 1 * MS_PER_DAY) 100 quick,
      makeDayScore (baseDate + 2 * MS_PER_DAY) 9 exploratory]"

definition seafoodTuesday :: "PerishableMealDate list" where
  "seafoodTuesday = [\<lparr>meal_category = ''Seafood'', plannedDate = baseDate + 1 * MS_PER_DAY\<rparr>]"

text \<open>Seafood planned for Monday itself and for the Sunday before.\<close>

definition twoSeafoodMeals :: "PerishableMealDate list" where
  "twoSeafoodMeals =
     [\<lparr>meal_category = ''Seafood'', plannedDate = baseDate\<rparr>,
      \<lparr>meal_category = ''Seafood'', plannedDate = baseDate - MS_PER_DAY\<rparr>]"

text \<open>Salmon planned for Friday, as in the test "shifts pickup later".\<close>

definition seafoodFriday :: "PerishableMealDate list" where
  "seafoodFriday = [\<lparr>meal_category = ''Seafood'', plannedDate = baseDate + 4 * MS_PER_DAY\<rparr>]"

section \<open>Rounding and the score of one signal\<close>

lemma js_round_of_int: "js_round (of_int k) = of_int k"
proof -
  have "\<lfloor>(of_int k :: rat) + 1 / 2\<rfloor> = k"
    by (rule floor_unique) simp_all
  then show ?thesis unfolding js_round_def by simp
qed

lemma js_round_bounds:
  assumes "0 \<le> x" "x \<le> 100"
  shows "0 \<le> js_round x \<and> js_round x \<le> 100"
proof -
  have "0 \<le> \<lfloor>x + 1 / 2\<rfloor>" using assms by simp
  moreover have "\<lfloor>x + 1 / 2\<rfloor> \<le> 100"
  proof -
    have "x + 1 / 2 < 101" using assms by simp
    then have "\<lfloor>x + 1 / 2\<rfloor> < 101" by (simp add: floor_less_iff)
    then show ?thesis by simp
  qed
  ultimately show ?thesis unfolding js_round_def by simp
qed

lemma compute_score_range:
  "0 \<le> score (TimeBlockSignal_compute rt events d)
   \<and> score (TimeBlockSignal_compute rt events d) \<le> 100"
  unfolding TimeBlockSignal_compute_def Let_def
  using js_round_bounds[of "min 100 (max 0 (rawScore rt d (sortByStart (eventsOnDate rt events d))))"]
  by simp

lemma compute_score_integral:
  "\<exists>k::int. score (TimeBlockSignal_compute rt events d) = of_int k"
  unfolding TimeBlockSignal_compute_def Let_def js_round_def
  by (auto intro: exI[of _ 0])

section \<open>The engine's weighted average\<close>

text \<open>The loop keeps \<open>0 \<le> totalWeightedScore \<le> 100 * totalWeight\<close> as long as every
  signal has a weight that is not negative and scores between 0 and 100, which is the
  interface's documented contract.\<close>

lemma signalsLoop_bounds:
  assumes "\<forall>s \<in> set signals. 0 \<le> weight s
             \<and> (\<forall>ev dd. 0 \<le> score (compute s ev dd) \<and> score (compute s ev dd) \<le> 100)"
    and "0 \<le> tws" "tws \<le> 100 * tw" "0 \<le> tw"
    and "signalsLoop signals events d (rs, tws, tw) = (rs', tws', tw')"
  shows "0 \<le> tws' \<and> tws' \<le> 100 * tw' \<and> 0 \<le> tw'"
  using assms
proof (induction signals arbitrary: rs tws tw)
  case Nil
  then show ?case by simp
next
  case (Cons s rest)
  let ?r = "compute s events d"
  have w: "0 \<le> weight s" and lo: "0 \<le> score ?r" and hi: "score ?r \<le> 100"
    using Cons.prems(1) by auto
  have a: "0 \<le> tws + score ?r * weight s"
    using Cons.prems(2) w lo by simp
  have "score ?r * weight s \<le> 100 * weight s"
    using w hi by (simp add: mult_right_mono)
  then have b: "tws + score ?r * weight s \<le> 100 * (tw + weight s)"
    using Cons.prems(3) by (simp add: algebra_simps)
  have c: "0 \<le> tw + weight s" using Cons.prems(4) w by simp
  have step: "signalsLoop rest events d (rs @ [?r], tws + score ?r * weight s, tw + weight s)
                = (rs', tws', tw')"
    using Cons.prems(5) by (simp add: Let_def)
  show ?case
    by (rule Cons.IH[OF _ a b c step]) (use Cons.prems(1) in simp)
qed

lemma scoreWeekDay_tier:
  "tier (scoreWeekDay rt signals events weekStart i)
     = tierFromScore (finalScore (scoreWeekDay rt signals events weekStart i))"
  unfolding scoreWeekDay_def by (simp add: Let_def split: prod.splits)


lemma scoreWeekDay_contract_bounds:
  assumes "\<forall>s \<in> set signals. 0 \<le> weight s
             \<and> (\<forall>ev dd. 0 \<le> score (compute s ev dd) \<and> score (compute s ev dd) \<le> 100)"
  shows "0 \<le> finalScore (scoreWeekDay rt signals events weekStart i)
         \<and> finalScore (scoreWeekDay rt signals events weekStart i) \<le> 100"
proof -
  obtain rs tws tw
    where L: "signalsLoop signals events (addLocalDays rt weekStart i) ([], 0, 0) = (rs, tws, tw)"
    by (metis prod_cases3)
  have B: "0 \<le> tws \<and> tws \<le> 100 * tw \<and> 0 \<le> tw"
    by (rule signalsLoop_bounds[OF assms _ _ _ L]) simp_all
  have F: "finalScore (scoreWeekDay rt signals events weekStart i)
             = (if tw > 0 then js_round (tws / tw) else 0)"
    unfolding scoreWeekDay_def using L by (simp add: Let_def)
  show ?thesis
  proof (cases "tw > 0")
    case True
    have "0 \<le> tws / tw" using B True by simp
    moreover have "tws / tw \<le> 100" using B True by (simp add: pos_divide_le_eq)
    ultimately show ?thesis using F True js_round_bounds by simp
  next
    case False
    then show ?thesis using F by simp
  qed
qed

lemma default_finalScore:
  "finalScore (scoreWeekDay rt (DayScoreEngine rt None) events weekStart i)
     = score (TimeBlockSignal_compute rt events (addLocalDays rt weekStart i))"
proof -
  obtain k :: int
    where k: "score (TimeBlockSignal_compute rt events (addLocalDays rt weekStart i)) = of_int k"
    using compute_score_integral by blast
  show ?thesis
    unfolding scoreWeekDay_def DayScoreEngine_def TimeBlockSignal_def
    by (simp add: Let_def k js_round_of_int)
qed

lemma tierFromScore_int:
  "tierFromScore (of_int k) =
     (if k \<le> 35 then exploratory else if k \<le> 65 then standard else quick)"
proof -
  have a: "(rat_of_int k \<le> 35) = (k \<le> 35)"
    using of_int_le_iff[of k 35, where 'a = rat] by simp
  have b: "(rat_of_int k \<le> 65) = (k \<le> 65)"
    using of_int_le_iff[of k 65, where 'a = rat] by simp
  show ?thesis
    unfolding tierFromScore_def TIER_THRESHOLDS_exploratory_def TIER_THRESHOLDS_standard_def
    by (simp add: a b)
qed

section \<open>C1: score range and tier of every day of the week\<close>

text \<open>
  C1. For every runtime, event list and week start, every DayScore that \<open>scoreWeek\<close> of the
  engine as constructed (one \<open>TimeBlockSignal\<close>) produces has a final score that is a
  whole number between 0 and 100, and its tier is \<open>tierFromScore\<close> of that score:
  exploratory for 0 to 35, standard for 36 to 65, quick for 66 to 100.
\<close>

theorem C1_scoreWeek_score_range_and_tier:
  assumes "ds \<in> set (scoreWeek rt (DayScoreEngine rt None) events weekStart)"
  shows "0 \<le> finalScore ds \<and> finalScore ds \<le> 100
         \<and> tier ds = tierFromScore (finalScore ds)
         \<and> (\<exists>k::int. finalScore ds = of_int k
               \<and> tier ds = (if 0 \<le> k \<and> k \<le> 35 then exploratory
                            else if 36 \<le> k \<and> k \<le> 65 then standard
                            else quick))"
proof -
  from assms obtain i
    where ds: "ds = scoreWeekDay rt (DayScoreEngine rt None) events weekStart i"
    unfolding scoreWeek_def by auto
  let ?c = "TimeBlockSignal_compute rt events (addLocalDays rt weekStart i)"
  have fs: "finalScore ds = score ?c"
    using ds default_finalScore by simp
  have rng: "0 \<le> finalScore ds \<and> finalScore ds \<le> 100"
    using fs compute_score_range by simp
  have t: "tier ds = tierFromScore (finalScore ds)"
    using ds scoreWeekDay_tier by simp
  obtain k :: int where k: "finalScore ds = of_int k"
    using fs compute_score_integral by metis
  have k0: "0 \<le> k" using rng k by simp
  have "tier ds = (if k \<le> 35 then exploratory else if k \<le> 65 then standard else quick)"
    using t k tierFromScore_int by simp
  then have "tier ds = (if 0 \<le> k \<and> k \<le> 35 then exploratory
                        else if 36 \<le> k \<and> k \<le> 65 then standard else quick)"
    using k0 by auto
  then show ?thesis using rng t k by blast
qed

theorem C1_witness:
  "scoreWeekDay nodeUTC (DayScoreEngine nodeUTC None) [makeEvent (atHour 9) (atHour 17)] baseDate 0
     \<in> set (scoreWeek nodeUTC (DayScoreEngine nodeUTC None) [makeEvent (atHour 9) (atHour 17)] baseDate)
   \<and> finalScore (scoreWeekDay nodeUTC (DayScoreEngine nodeUTC None) [makeEvent (atHour 9) (atHour 17)] baseDate 0) = 38
   \<and> tier (scoreWeekDay nodeUTC (DayScoreEngine nodeUTC None) [makeEvent (atHour 9) (atHour 17)] baseDate 0)
       = tierFromScore 38"
proof -
  let ?d = "scoreWeekDay nodeUTC (DayScoreEngine nodeUTC None) [makeEvent (atHour 9) (atHour 17)] baseDate 0"
  have mem: "?d \<in> set (scoreWeek nodeUTC (DayScoreEngine nodeUTC None) [makeEvent (atHour 9) (atHour 17)] baseDate)"
    unfolding scoreWeek_def by simp
  have v: "finalScore ?d = 38" by code_simp
  from C1_scoreWeek_score_range_and_tier[OF mem] mem v show ?thesis by simp
qed

text \<open>The same bounds hold for an engine built with any signals that keep the interface's
  contract (weights not negative, scores between 0 and 100); the tier equation needs no
  assumption at all.\<close>

lemma scoreWeek_contract_bounds:
  assumes "\<forall>s \<in> set signals. 0 \<le> weight s
             \<and> (\<forall>ev dd. 0 \<le> score (compute s ev dd) \<and> score (compute s ev dd) \<le> 100)"
    and "ds \<in> set (scoreWeek rt signals events weekStart)"
  shows "0 \<le> finalScore ds \<and> finalScore ds \<le> 100 \<and> tier ds = tierFromScore (finalScore ds)"
proof -
  from assms(2) obtain i where ds: "ds = scoreWeekDay rt signals events weekStart i"
    unfolding scoreWeek_def by auto
  show ?thesis
    using ds scoreWeekDay_contract_bounds[OF assms(1)] scoreWeekDay_tier by simp
qed

section \<open>C6: the seven days of the week\<close>








section \<open>C7: a day without events\<close>

text \<open>When the day filter keeps no event, \<open>TimeBlockSignal.compute\<close> returns score 0,
  the reasoning "Completely free day", and raw data with zero committed hours, a largest
  free block of \<open>WAKING_HOURS\<close> (14) hours and no back-to-back pair.\<close>

lemma compute_free_day:
  assumes "localDayBounds rt d = (dayStart, dayEnd)"
    and "\<forall>e \<in> set events. \<not> (startTime e \<le> dayEnd \<and> endTime e \<ge> dayStart)"
  shows "TimeBlockSignal_compute rt events d
           = \<lparr>score = 0, reasoning = ''Completely free day'',
              rawData = [(''totalCommittedHours'', 0),
                         (''largestFreeBlockHours'', WAKING_HOURS),
                         (''backToBackCount'', 0)]\<rparr>"
proof -
  have "eventsOnDate rt events d = []"
    unfolding eventsOnDate_def using assms by (simp add: filter_empty_conv)
  then show ?thesis
    unfolding TimeBlockSignal_compute_def by simp
qed

text \<open>
  C7 is not met by the code at the boundary of the day. The filter keeps an event whose
  end is at or after the day's start, so an event that ends exactly at the day's 00:00
  is scored for that day although it overlaps it for no time at all. The all-day event of
  Monday 17 February, which the Google provider delivers as running from Monday 00:00 UTC
  to Tuesday 00:00 UTC, has zero hours in common with Tuesday, and for Tuesday the code
  returns score 40 with 24 committed hours, not the result of a free day.
\<close>

theorem C7_event_ending_at_midnight_scored_next_day:
  "localDayBounds nodeUTC (baseDate + MS_PER_DAY) = (1739836800000, 1739923199999)
   \<and> endTime allDayMonday = 1739836800000
   \<and> hoursOverlap (startTime allDayMonday) (endTime allDayMonday) 1739836800000 1739923199999 = 0
   \<and> spec_committedHours nodeUTC [allDayMonday] (baseDate + MS_PER_DAY) = 0
   \<and> eventsOnDate nodeUTC [allDayMonday] (baseDate + MS_PER_DAY) = [allDayMonday]
   \<and> score (TimeBlockSignal_compute nodeUTC [allDayMonday] (baseDate + MS_PER_DAY)) = 40
   \<and> reasoning (TimeBlockSignal_compute nodeUTC [allDayMonday] (baseDate + MS_PER_DAY))
       = ''24.0h committed; largest free block 16.0h''
   \<and> map_of (rawData (TimeBlockSignal_compute nodeUTC [allDayMonday] (baseDate + MS_PER_DAY)))
        ''totalCommittedHours'' = Some 24"
proof -
  have a: "localDayBounds nodeUTC (baseDate + MS_PER_DAY) = (1739836800000, 1739923199999)"
    by code_simp
  have b: "endTime allDayMonday = 1739836800000" by code_simp
  have c: "hoursOverlap (startTime allDayMonday) (endTime allDayMonday)
             1739836800000 1739923199999 = 0"
    by code_simp
  have d: "spec_committedHours nodeUTC [allDayMonday] (baseDate + MS_PER_DAY) = 0"
    by code_simp
  have e: "eventsOnDate nodeUTC [allDayMonday] (baseDate + MS_PER_DAY) = [allDayMonday]"
    by code_simp
  have f: "score (TimeBlockSignal_compute nodeUTC [allDayMonday] (baseDate + MS_PER_DAY)) = 40"
    by code_simp
  have g: "reasoning (TimeBlockSignal_compute nodeUTC [allDayMonday] (baseDate + MS_PER_DAY))
             = ''24.0h committed; largest free block 16.0h''"
    by code_simp
  have h: "map_of (rawData (TimeBlockSignal_compute nodeUTC [allDayMonday] (baseDate + MS_PER_DAY)))
             ''totalCommittedHours'' = Some 24"
    by code_simp
  show ?thesis by (intro conjI a b c d e f g h)
qed

section \<open>C9: the caps of the four factors\<close>

lemma backToBackCount_le: "backToBackCount es \<le> length es - 1"
  by (induction es rule: backToBackCount.induct) auto

lemma backToBackCount_le_max: "backToBackCount es \<le> maxPossibleB2B es"
  unfolding maxPossibleB2B_def using backToBackCount_le[of es] by simp

lemma committedPts_le: "committedPts es \<le> 40"
  unfolding committedPts_def MAX_COMMITTED_HOURS_PTS_def by simp

lemma ratio_times_cap: "(r::rat) \<le> 1 \<Longrightarrow> r * 25 \<le> 25"
  by simp

lemma meal_ratio_cap: "(a::rat) \<le> 1 \<Longrightarrow> b \<le> 1 \<Longrightarrow> (a * 2 + b) / 3 * 20 \<le> 20"
  by simp

lemma b2bPts_le: "b2bPts es \<le> 25"
proof -
  have pos: "0 < (of_nat (maxPossibleB2B es) :: rat)"
    unfolding maxPossibleB2B_def by simp
  have "(of_nat (backToBackCount es) :: rat) \<le> of_nat (maxPossibleB2B es)"
    using backToBackCount_le_max[of es] by simp
  then have "(of_nat (backToBackCount es) :: rat) / of_nat (maxPossibleB2B es) \<le> 1"
    using pos by (simp add: pos_divide_le_eq)
  then have "(of_nat (backToBackCount es) :: rat) / of_nat (maxPossibleB2B es) * 25 \<le> 25"
    by (rule ratio_times_cap)
  then show ?thesis
    unfolding b2bPts_def MAX_BACK_TO_BACK_PTS_def .
qed

lemma mealPts_le: "mealPts rt d es \<le> 20"
proof -
  let ?dr = "min (dinnerOverlapHours rt d es / of_int (DINNER_PREP_END - DINNER_PREP_START)) 1"
  let ?lr = "min (lunchOverlapHours rt d es / of_int (LUNCH_END - LUNCH_START)) 1"
  have "?dr \<le> 1" and "?lr \<le> 1" by simp_all
  then have "(?dr * 2 + ?lr) / 3 * 20 \<le> 20" by (rule meal_ratio_cap)
  then show ?thesis
    unfolding mealPts_def MAX_MEAL_CONFLICT_PTS_def Let_def .
qed

lemma freeBlocksLoop_pos:
  assumes "\<forall>b \<in> set fb. 0 < b"
    and "freeBlocksLoop ws we es (cur, fb) = (cur', fb')"
  shows "\<forall>b \<in> set fb'. 0 < b"
  using assms
proof (induction es arbitrary: cur fb)
  case Nil
  then show ?case by simp
next
  case (Cons e es)
  let ?start = "max (startTime e) ws"
  let ?fb = "if ?start > cur then fb @ [of_int (?start - cur) / of_int MS_PER_HOUR] else fb"
  have p: "\<forall>b \<in> set ?fb. 0 < b"
    using Cons.prems(1) by (auto simp: MS_PER_HOUR_def)
  have step: "freeBlocksLoop ws we es (max cur (min (endTime e) we), ?fb) = (cur', fb')"
    using Cons.prems(2) by (simp add: Let_def)
  show ?case by (rule Cons.IH[OF p step])
qed

lemma freeBlocksOf_pos: "\<forall>b \<in> set (freeBlocksOf rt d es). 0 < b"
proof -
  let ?ws = "setHours rt (fst (localDayBounds rt d)) 7"
  let ?we = "setHours rt (fst (localDayBounds rt d)) 23"
  obtain cur fb where L: "freeBlocksLoop ?ws ?we es (?ws, []) = (cur, fb)"
    by (metis surj_pair)
  have p: "\<forall>b \<in> set fb. 0 < b"
    by (rule freeBlocksLoop_pos[OF _ L]) simp
  have "freeBlocksOf rt d es
          = (if cur < ?we then fb @ [of_int (?we - cur) / of_int MS_PER_HOUR] else fb)"
    unfolding freeBlocksOf_def using L by (simp add: Let_def)
  then show ?thesis using p by (auto simp: MS_PER_HOUR_def)
qed

lemma fold_max_ge: "(x::rat) \<le> fold max xs x"
proof (induction xs arbitrary: x)
  case Nil
  then show ?case by simp
next
  case (Cons y ys)
  have "x \<le> max y x" by simp
  also have "\<dots> \<le> fold max ys (max y x)" by (rule Cons.IH)
  finally show ?case by simp
qed

lemma largestFreeBlockHours_nonneg: "0 \<le> largestFreeBlockHours rt d es"
proof (cases "freeBlocksOf rt d es")
  case Nil
  then show ?thesis unfolding largestFreeBlockHours_def by simp
next
  case (Cons b bs)
  have "0 < b" using freeBlocksOf_pos[of rt d es] Cons by simp
  moreover have "b \<le> fold max bs b" by (rule fold_max_ge)
  ultimately show ?thesis
    unfolding largestFreeBlockHours_def math_max_def using Cons by simp
qed

lemma freeBlockPts_le: "freeBlockPts rt d es \<le> 15"
proof -
  have "0 \<le> largestFreeBlockHours rt d es / WAKING_HOURS"
    using largestFreeBlockHours_nonneg[of rt d es] by (simp add: WAKING_HOURS_def)
  then have "0 \<le> min (largestFreeBlockHours rt d es / WAKING_HOURS) 1" by simp
  then show ?thesis
    unfolding freeBlockPts_def MAX_FREE_BLOCK_PTS_def by simp
qed

lemma rawScore_le: "rawScore rt d es \<le> 100"
  unfolding rawScore_def
  using committedPts_le[of es] b2bPts_le[of es] mealPts_le[of rt d es] freeBlockPts_le[of rt d es]
  by linarith

text \<open>
  C9. For every runtime, event list and date, each of the four factors stays under its cap:
  committed hours at most 40 points, back-to-back at most 25 (the count of back-to-back
  pairs never exceeds \<open>max (eventCount - 1) 1\<close>, so the ratio is at most 1 without an
  explicit \<open>min\<close>), meal windows at most 20, free block at most 15. Their sum is at most
  100, so the \<open>Math.min(100, ...)\<close> of the final clamp returns its argument, and the
  score is the rounded \<open>max 0\<close> of the raw sum.
\<close>

theorem C9_factor_caps:
  "committedPts (sortByStart (eventsOnDate rt events d)) \<le> MAX_COMMITTED_HOURS_PTS
   \<and> MAX_COMMITTED_HOURS_PTS = 40
   \<and> backToBackCount (sortByStart (eventsOnDate rt events d))
       \<le> max (length (sortByStart (eventsOnDate rt events d)) - 1) 1
   \<and> b2bPts (sortByStart (eventsOnDate rt events d)) \<le> MAX_BACK_TO_BACK_PTS
   \<and> MAX_BACK_TO_BACK_PTS = 25
   \<and> mealPts rt d (sortByStart (eventsOnDate rt events d)) \<le> MAX_MEAL_CONFLICT_PTS
   \<and> MAX_MEAL_CONFLICT_PTS = 20
   \<and> freeBlockPts rt d (sortByStart (eventsOnDate rt events d)) \<le> MAX_FREE_BLOCK_PTS
   \<and> MAX_FREE_BLOCK_PTS = 15
   \<and> rawScore rt d (sortByStart (eventsOnDate rt events d)) \<le> 100
   \<and> min 100 (max 0 (rawScore rt d (sortByStart (eventsOnDate rt events d))))
       = max 0 (rawScore rt d (sortByStart (eventsOnDate rt events d)))
   \<and> score (TimeBlockSignal_compute rt events d)
       = (if length (eventsOnDate rt events d) = 0 then 0
          else js_round (max 0 (rawScore rt d (sortByStart (eventsOnDate rt events d)))))"
proof -
  let ?es = "sortByStart (eventsOnDate rt events d)"
  have r: "rawScore rt d ?es \<le> 100" by (rule rawScore_le)
  then have m: "min 100 (max 0 (rawScore rt d ?es)) = max 0 (rawScore rt d ?es)" by simp
  have s: "score (TimeBlockSignal_compute rt events d)
             = (if length (eventsOnDate rt events d) = 0 then 0
                else js_round (max 0 (rawScore rt d ?es)))"
    unfolding TimeBlockSignal_compute_def Let_def using m by simp
  have b: "backToBackCount ?es \<le> max (length ?es - 1) 1"
    using backToBackCount_le_max[of ?es] unfolding maxPossibleB2B_def .
  show ?thesis
    using committedPts_le[of ?es] b2bPts_le[of ?es] mealPts_le[of rt d ?es]
      freeBlockPts_le[of rt d ?es] r m s b
    unfolding MAX_COMMITTED_HOURS_PTS_def MAX_BACK_TO_BACK_PTS_def MAX_MEAL_CONFLICT_PTS_def
      MAX_FREE_BLOCK_PTS_def
    by simp
qed

theorem C9_witness:
  "committedPts (sortByStart (eventsOnDate nodeUTC packedDay baseDate)) = 30
   \<and> b2bPts (sortByStart (eventsOnDate nodeUTC packedDay baseDate)) = 15
   \<and> mealPts nodeUTC baseDate (sortByStart (eventsOnDate nodeUTC packedDay baseDate)) = 35 / 3
   \<and> freeBlockPts nodeUTC baseDate (sortByStart (eventsOnDate nodeUTC packedDay baseDate)) = 165 / 14
   \<and> rawScore nodeUTC baseDate (sortByStart (eventsOnDate nodeUTC packedDay baseDate)) \<le> 100
   \<and> score (TimeBlockSignal_compute nodeUTC packedDay baseDate) = 68"
proof -
  have c: "committedPts (sortByStart (eventsOnDate nodeUTC packedDay baseDate)) = 30" by code_simp
  have b: "b2bPts (sortByStart (eventsOnDate nodeUTC packedDay baseDate)) = 15" by code_simp
  have m: "mealPts nodeUTC baseDate (sortByStart (eventsOnDate nodeUTC packedDay baseDate)) = 35 / 3"
    by code_simp
  have f: "freeBlockPts nodeUTC baseDate (sortByStart (eventsOnDate nodeUTC packedDay baseDate)) = 165 / 14"
    by code_simp
  have s: "score (TimeBlockSignal_compute nodeUTC packedDay baseDate) = 68" by code_simp
  from C9_factor_caps[of nodeUTC packedDay baseDate] c b m f s show ?thesis by simp
qed

section \<open>C5: an event across midnight\<close>

lemma foldl_add_sum_list:
  fixes g :: "'a \<Rightarrow> rat"
  shows "foldl (\<lambda>s x. s + g x) a xs = a + sum_list (map g xs)"
  by (induction xs arbitrary: a) (simp_all add: add.assoc)

lemma sum_list_sort_key:
  fixes g :: "'a \<Rightarrow> rat"
  shows "sum_list (map g (sort_key f xs)) = sum_list (map g xs)"
proof -
  have "mset (map g (sort_key f xs)) = mset (map g xs)" by simp
  then show ?thesis by (metis sum_mset_sum_list)
qed

lemma totalCommittedHours_full_durations:
  "totalCommittedHours (sortByStart es)
     = (\<Sum>x\<leftarrow>es. of_int (endTime x - startTime x) / of_int MS_PER_HOUR)"
  unfolding totalCommittedHours_def sortByStart_def
  by (simp add: foldl_add_sum_list sum_list_sort_key)

lemma next_day_start:
  "fst (localDayBounds (fixedOffsetZone tz rt) (d + MS_PER_DAY)) = fst (localDayBounds (fixedOffsetZone tz rt) d) + MS_PER_DAY"
  unfolding localDayBounds_def fixedOffsetZone_def MS_PER_DAY_def by (simp add: Let_def)

lemma eventsOnDate_iff:
  "e \<in> set (eventsOnDate (fixedOffsetZone tz rt) events d)
     \<longleftrightarrow> e \<in> set events \<and> startTime e \<le> fst (localDayBounds (fixedOffsetZone tz rt) d) + MS_PER_DAY - 1
         \<and> endTime e \<ge> fst (localDayBounds (fixedOffsetZone tz rt) d)"
  unfolding eventsOnDate_def localDayBounds_def fixedOffsetZone_def by (auto simp: Let_def)

text \<open>
  C5, as stated, does not hold of the code: the meeting from 22:00 on Monday to 02:00 on Tuesday
  overlaps Monday for two hours, and Monday's committed-hours measurement is four.
\<close>

theorem C5_counterexample:
  "startTime midnightEvent < fst (localDayBounds nodeUTC (baseDate + MS_PER_DAY))
   \<and> fst (localDayBounds nodeUTC (baseDate + MS_PER_DAY)) < endTime midnightEvent
   \<and> spec_committedHours nodeUTC [midnightEvent] baseDate = 2
   \<and> map_of (rawData (TimeBlockSignal_compute nodeUTC [midnightEvent] baseDate)) ''totalCommittedHours''
       = Some 4
   \<and> totalCommittedHours (sortByStart (eventsOnDate nodeUTC [midnightEvent] baseDate))
       \<noteq> spec_committedHours nodeUTC [midnightEvent] baseDate"
proof -
  have a: "startTime midnightEvent < fst (localDayBounds nodeUTC (baseDate + MS_PER_DAY))"
    by code_simp
  have b: "fst (localDayBounds nodeUTC (baseDate + MS_PER_DAY)) < endTime midnightEvent"
    by code_simp
  have c: "spec_committedHours nodeUTC [midnightEvent] baseDate = 2"
    by code_simp
  have d: "map_of (rawData (TimeBlockSignal_compute nodeUTC [midnightEvent] baseDate))
             ''totalCommittedHours'' = Some 4"
    by code_simp
  have e: "totalCommittedHours (sortByStart (eventsOnDate nodeUTC [midnightEvent] baseDate)) = 4"
    by code_simp
  show ?thesis using a b c d e by simp
qed

text \<open>
  C5, amended. In a zone of fixed offset, an event whose time span crosses a local
  midnight is among the events scored for the day before that midnight and for the day
  after it, and the committed-hours measurement of each of the two days counts the
  event's full duration (end minus start), not only the hours inside that day: the
  measurement of a day is the sum of the full durations of the events scored for it,
  computed for each day on its own.
\<close>

theorem C5_midnight_event_full_duration_on_both_days:
  assumes "e \<in> set events"
    and "midnight = fst (localDayBounds (fixedOffsetZone tz rt) (d + MS_PER_DAY))"
    and "startTime e < midnight" and "midnight < endTime e"
  shows "e \<in> set (eventsOnDate (fixedOffsetZone tz rt) events d)
         \<and> e \<in> set (eventsOnDate (fixedOffsetZone tz rt) events (d + MS_PER_DAY))
         \<and> totalCommittedHours (sortByStart (eventsOnDate (fixedOffsetZone tz rt) events d))
             = (\<Sum>x\<leftarrow>eventsOnDate (fixedOffsetZone tz rt) events d.
                   of_int (endTime x - startTime x) / of_int MS_PER_HOUR)
         \<and> totalCommittedHours (sortByStart (eventsOnDate (fixedOffsetZone tz rt) events (d + MS_PER_DAY)))
             = (\<Sum>x\<leftarrow>eventsOnDate (fixedOffsetZone tz rt) events (d + MS_PER_DAY).
                   of_int (endTime x - startTime x) / of_int MS_PER_HOUR)
         \<and> totalCommittedHours (sortByStart (eventsOnDate (fixedOffsetZone tz rt) [e] d))
             = of_int (endTime e - startTime e) / of_int MS_PER_HOUR
         \<and> totalCommittedHours (sortByStart (eventsOnDate (fixedOffsetZone tz rt) [e] (d + MS_PER_DAY)))
             = of_int (endTime e - startTime e) / of_int MS_PER_HOUR"
proof -
  have m: "midnight = fst (localDayBounds (fixedOffsetZone tz rt) d) + MS_PER_DAY"
    using assms(2) next_day_start by simp
  have pos: "0 < MS_PER_DAY" by (simp add: MS_PER_DAY_def)
  have in1: "startTime e \<le> fst (localDayBounds (fixedOffsetZone tz rt) d) + MS_PER_DAY - 1
             \<and> endTime e \<ge> fst (localDayBounds (fixedOffsetZone tz rt) d)"
    using assms(3,4) m pos by simp
  have in2: "startTime e \<le> fst (localDayBounds (fixedOffsetZone tz rt) (d + MS_PER_DAY)) + MS_PER_DAY - 1
             \<and> endTime e \<ge> fst (localDayBounds (fixedOffsetZone tz rt) (d + MS_PER_DAY))"
    using assms(2,3,4) pos by simp
  have d1: "e \<in> set (eventsOnDate (fixedOffsetZone tz rt) events d)"
    using assms(1) in1 by (simp add: eventsOnDate_iff)
  have d2: "e \<in> set (eventsOnDate (fixedOffsetZone tz rt) events (d + MS_PER_DAY))"
    using assms(1) in2 by (simp add: eventsOnDate_iff)
  have s1: "eventsOnDate (fixedOffsetZone tz rt) [e] d = [e]"
    using in1 unfolding eventsOnDate_def localDayBounds_def fixedOffsetZone_def by (simp add: Let_def)
  have s2: "eventsOnDate (fixedOffsetZone tz rt) [e] (d + MS_PER_DAY) = [e]"
    using in2 unfolding eventsOnDate_def localDayBounds_def fixedOffsetZone_def by (simp add: Let_def)
  show ?thesis
    using d1 d2 s1 s2 by (simp add: totalCommittedHours_full_durations)
qed

theorem C5_witness:
  "midnightEvent \<in> set [midnightEvent]
   \<and> 1739836800000 = fst (localDayBounds (fixedOffsetZone 0 nodeUTC) (baseDate + MS_PER_DAY))
   \<and> startTime midnightEvent < 1739836800000 \<and> 1739836800000 < endTime midnightEvent
   \<and> midnightEvent \<in> set (eventsOnDate (fixedOffsetZone 0 nodeUTC) [midnightEvent] baseDate)
   \<and> midnightEvent \<in> set (eventsOnDate (fixedOffsetZone 0 nodeUTC) [midnightEvent] (baseDate + MS_PER_DAY))
   \<and> totalCommittedHours (sortByStart (eventsOnDate (fixedOffsetZone 0 nodeUTC) [midnightEvent] baseDate)) = 4
   \<and> totalCommittedHours (sortByStart (eventsOnDate (fixedOffsetZone 0 nodeUTC) [midnightEvent] (baseDate + MS_PER_DAY))) = 4"
proof -
  have a: "midnightEvent \<in> set [midnightEvent]" by simp
  have b: "1739836800000 = fst (localDayBounds (fixedOffsetZone 0 nodeUTC) (baseDate + MS_PER_DAY))"
    by (simp add: localDayBounds_def fixedOffsetZone_def baseDate_def MS_PER_DAY_def)
  have c: "startTime midnightEvent < 1739836800000"
    by (simp add: midnightEvent_def makeEvent_def atHour_def baseDate_def MS_PER_HOUR_def)
  have d: "1739836800000 < endTime midnightEvent"
    by (simp add: midnightEvent_def makeEvent_def atHour_def baseDate_def MS_PER_HOUR_def)
  have dur: "rat_of_int (endTime midnightEvent - startTime midnightEvent) / rat_of_int MS_PER_HOUR = 4"
    by (simp add: midnightEvent_def makeEvent_def atHour_def baseDate_def MS_PER_HOUR_def)
  from C5_midnight_event_full_duration_on_both_days[OF a b c d] dur
  have "midnightEvent \<in> set (eventsOnDate (fixedOffsetZone 0 nodeUTC) [midnightEvent] baseDate)
        \<and> midnightEvent \<in> set (eventsOnDate (fixedOffsetZone 0 nodeUTC) [midnightEvent] (baseDate + MS_PER_DAY))
        \<and> totalCommittedHours (sortByStart (eventsOnDate (fixedOffsetZone 0 nodeUTC) [midnightEvent] baseDate)) = 4
        \<and> totalCommittedHours (sortByStart (eventsOnDate (fixedOffsetZone 0 nodeUTC) [midnightEvent] (baseDate + MS_PER_DAY))) = 4"
    by simp
  then show ?thesis using a b c d by simp
qed

section \<open>The head of a stable sort\<close>

lemma hd_insort_key:
  "hd (insort_key f x ys) = (if ys = [] \<or> f x \<le> f (hd ys) then x else hd ys)"
  by (cases ys) auto

text \<open>The first element of a stable sort is the earliest element with the least key.\<close>

lemma hd_sort_key_first_min:
  fixes f :: "'a \<Rightarrow> 'b::linorder"
  assumes "xs \<noteq> []"
  shows "\<exists>i < length xs. hd (sort_key f xs) = xs ! i
           \<and> (\<forall>j < length xs. f (xs ! i) \<le> f (xs ! j))
           \<and> (\<forall>j < i. f (xs ! i) < f (xs ! j))"
  using assms
proof (induction xs)
  case Nil
  then show ?case by simp
next
  case (Cons x xs)
  show ?case
  proof (cases "xs = []")
    case True
    then show ?thesis by simp
  next
    case False
    from Cons.IH[OF False] obtain i where i: "i < length xs"
      and h: "hd (sort_key f xs) = xs ! i"
      and mn: "\<forall>j < length xs. f (xs ! i) \<le> f (xs ! j)"
      and fst: "\<forall>j < i. f (xs ! i) < f (xs ! j)"
      by blast
    have ne: "sort_key f xs \<noteq> []"
      using False by (metis length_sort length_0_conv)
    have hd_eq: "hd (sort_key f (x # xs)) = (if f x \<le> f (xs ! i) then x else xs ! i)"
      using ne h by (simp add: hd_insort_key)
    show ?thesis
    proof (cases "f x \<le> f (xs ! i)")
      case True
      have "\<forall>j < length (x # xs). f ((x # xs) ! 0) \<le> f ((x # xs) ! j)"
      proof (intro allI impI)
        fix j assume "j < length (x # xs)"
        then show "f ((x # xs) ! 0) \<le> f ((x # xs) ! j)"
          using True mn by (cases j) (auto intro: order_trans)
      qed
      then show ?thesis using hd_eq True by (intro exI[of _ 0]) simp
    next
      case False
      then have lt: "f (xs ! i) < f x" by simp
      have a: "\<forall>j < length (x # xs). f ((x # xs) ! Suc i) \<le> f ((x # xs) ! j)"
      proof (intro allI impI)
        fix j assume "j < length (x # xs)"
        then show "f ((x # xs) ! Suc i) \<le> f ((x # xs) ! j)"
          using lt mn by (cases j) auto
      qed
      have b: "\<forall>j < Suc i. f ((x # xs) ! Suc i) < f ((x # xs) ! j)"
      proof (intro allI impI)
        fix j assume "j < Suc i"
        then show "f ((x # xs) ! Suc i) < f ((x # xs) ! j)"
          using lt fst by (cases j) auto
      qed
      show ?thesis using hd_eq False i a b by (intro exI[of _ "Suc i"]) simp
    qed
  qed
qed

section \<open>What recommendPickupDay returns\<close>

lemma scored_length:
  "length (scored (mapCandidates rt st)) = length (weekScores st)"
  unfolding mapCandidates_def by simp

lemma scored_nth:
  assumes "i < length (weekScores st)"
  shows "scored (mapCandidates rt st) ! i
           = scoreCandidate rt (groceryItems st) (perishableMealDates st) (weekScores st ! i) i"
  unfolding mapCandidates_def using assms by simp

lemma mapCandidates_inputs:
  "weekScores (mapCandidates rt st) = weekScores st"
  "groceryItems (mapCandidates rt st) = groceryItems st"
  "perishableMealDates (mapCandidates rt st) = perishableMealDates st"
  unfolding mapCandidates_def by simp_all

lemma sortScored_inputs:
  "weekScores (sortScored rt st) = weekScores st"
  "groceryItems (sortScored rt st) = groceryItems st"
  "perishableMealDates (sortScored rt st) = perishableMealDates st"
  unfolding sortScored_def by simp_all

text \<open>The element the sort leaves first is one of the elements of the array; when every
  combined score is a number it is the earliest one with the highest score.\<close>

lemma sortScored_first:
  assumes "scored st \<noteq> []"
  shows "\<exists>i < length (scored st). \<exists>rest.
           scored (sortScored rt st) = scored st ! i # rest
           \<and> (list_all isNumber (map combined (scored st)) \<longrightarrow>
                (\<forall>j < length (scored st).
                    (case combined (scored st ! i) of Num v \<Rightarrow> - v | NaN \<Rightarrow> 0)
                    \<le> (case combined (scored st ! j) of Num v \<Rightarrow> - v | NaN \<Rightarrow> 0))
                \<and> (\<forall>j < i.
                    (case combined (scored st ! i) of Num v \<Rightarrow> - v | NaN \<Rightarrow> 0)
                    < (case combined (scored st ! j) of Num v \<Rightarrow> - v | NaN \<Rightarrow> 0)))"
proof -
  let ?xs = "scored st"
  let ?key = "\<lambda>c. case combined c of Num v \<Rightarrow> - v | NaN \<Rightarrow> (0::rat)"
  have pos: "0 < length ?xs" using assms by simp
  show ?thesis
  proof (cases "list_all isNumber (map combined ?xs)")
    case True
    from hd_sort_key_first_min[OF assms, of ?key] obtain i where i: "i < length ?xs"
      and h: "hd (sort_key ?key ?xs) = ?xs ! i"
      and mn: "\<forall>j < length ?xs. ?key (?xs ! i) \<le> ?key (?xs ! j)"
      and fst: "\<forall>j < i. ?key (?xs ! i) < ?key (?xs ! j)"
      by blast
    have "sort_key ?key ?xs \<noteq> []" using assms by (metis length_sort length_0_conv)
    then have "sort_key ?key ?xs = ?xs ! i # tl (sort_key ?key ?xs)"
      using h by (metis list.collapse)
    then have "scored (sortScored rt st) = ?xs ! i # tl (sort_key ?key ?xs)"
      unfolding sortScored_def using True by (simp add: Let_def)
    then show ?thesis using i mn fst by blast
  next
    case False
    show ?thesis
    proof (cases "comparatorAlwaysZero (map combined ?xs)")
      case True
      have "scored (sortScored rt st) = ?xs"
        unfolding sortScored_def using False True by (simp add: Let_def)
      also have "?xs = ?xs ! 0 # tl ?xs"
        using assms by (cases ?xs) simp_all
      finally have "scored (sortScored rt st) = ?xs ! 0 # tl ?xs" .
      then show ?thesis using pos False by blast
    next
      case nz: False
      let ?k = "pick rt (map combined ?xs) mod length ?xs"
      have k: "?k < length ?xs" using pos by simp
      have "scored (sortScored rt st) = ?xs ! ?k # (take ?k ?xs @ drop (Suc ?k) ?xs)"
        unfolding sortScored_def using False nz by (simp add: Let_def)
      then show ?thesis using k False by blast
    qed
  qed
qed

text \<open>For a non-empty week the call returns; what it returns is built from the candidate
  of some index \<open>i\<close> of the week, and the state it leaves differs from the one it got in
  \<open>scored\<close> only. When every combined score is a number, no candidate has a higher
  combined score than candidate \<open>i\<close> and every earlier candidate has a lower one.\<close>

lemma recommendPickupDay_run_char:
  assumes "weekScores st \<noteq> []"
  shows "\<exists>i < length (weekScores st).
           recommendPickupDay_run rt st
             = Inr (\<lparr>day = date (weekScores st ! i),
                     dayIndex = i,
                     pickup_reasoning =
                       buildReasoning rt (weekScores st ! i)
                         (fl rt (100 - finalScore (weekScores st ! i)))
                         (computeFreshnessScore rt (date (weekScores st ! i)) (groceryItems st)
                            (perishableMealDates st))
                         (groceryItems st) (perishableMealDates st),
                     pickup_score =
                       combined (scoreCandidate rt (groceryItems st) (perishableMealDates st)
                                   (weekScores st ! i) i)\<rparr>,
                    sortScored rt (mapCandidates rt st))
           \<and> ((\<forall>j < length (weekScores st).
                   combined (scoreCandidate rt (groceryItems st) (perishableMealDates st)
                               (weekScores st ! j) j) = Num (cs ! j))
                \<longrightarrow> (\<forall>j < length (weekScores st). cs ! j \<le> cs ! i)
                    \<and> (\<forall>j < i. cs ! j < cs ! i))"
proof -
  let ?m = "mapCandidates rt st"
  let ?sc = "scored ?m"
  let ?key = "\<lambda>c. case combined c of Num v \<Rightarrow> - v | NaN \<Rightarrow> (0::rat)"
  let ?cand = "\<lambda>j. scoreCandidate rt (groceryItems st) (perishableMealDates st) (weekScores st ! j) j"
  have len: "length ?sc = length (weekScores st)" by (rule scored_length)
  then have ne: "?sc \<noteq> []" using assms by auto
  from sortScored_first[OF ne, of rt] obtain i rest where i: "i < length ?sc"
    and srt: "scored (sortScored rt ?m) = ?sc ! i # rest"
    and best: "list_all isNumber (map combined ?sc) \<longrightarrow>
                 (\<forall>j < length ?sc. ?key (?sc ! i) \<le> ?key (?sc ! j))
                 \<and> (\<forall>j < i. ?key (?sc ! i) < ?key (?sc ! j))"
    by blast
  have i': "i < length (weekScores st)" using i len by simp
  have nth: "\<And>j. j < length (weekScores st) \<Longrightarrow> ?sc ! j = ?cand j"
    using scored_nth by simp
  have sst: "scored (sortScored rt ?m) = ?cand i # rest"
    using srt nth[OF i'] by simp
  have keep: "groceryItems (sortScored rt ?m) = groceryItems st"
             "perishableMealDates (sortScored rt ?m) = perishableMealDates st"
    by (simp_all add: sortScored_inputs mapCandidates_inputs)
  have fields: "dayScore (?cand i) = weekScores st ! i" "index (?cand i) = i"
    "calendarScore (?cand i) = fl rt (100 - finalScore (weekScores st ! i))"
    "freshnessScore (?cand i)
       = computeFreshnessScore rt (date (weekScores st ! i)) (groceryItems st)
           (perishableMealDates st)"
    unfolding scoreCandidate_def by (simp_all add: Let_def)
  have run: "recommendPickupDay_run rt st
        = Inr (\<lparr>day = date (weekScores st ! i), dayIndex = i,
                pickup_reasoning =
                  buildReasoning rt (weekScores st ! i)
                    (fl rt (100 - finalScore (weekScores st ! i)))
                    (computeFreshnessScore rt (date (weekScores st ! i)) (groceryItems st)
                       (perishableMealDates st))
                    (groceryItems st) (perishableMealDates st),
                pickup_score = combined (?cand i)\<rparr>,
               sortScored rt ?m)"
    unfolding recommendPickupDay_run_def using assms sst keep fields by (simp add: Let_def)
  have ord: "(\<forall>j < length (weekScores st). combined (?cand j) = Num (cs ! j))
               \<longrightarrow> (\<forall>j < length (weekScores st). cs ! j \<le> cs ! i) \<and> (\<forall>j < i. cs ! j < cs ! i)"
  proof
    assume num: "\<forall>j < length (weekScores st). combined (?cand j) = Num (cs ! j)"
    have key: "\<And>j. j < length (weekScores st) \<Longrightarrow> ?key (?sc ! j) = - (cs ! j)"
      using num nth by simp
    have "\<forall>c \<in> set (map combined ?sc). isNumber c"
    proof
      fix c assume "c \<in> set (map combined ?sc)"
      then obtain j where "j < length ?sc" "c = combined (?sc ! j)"
        by (auto simp: in_set_conv_nth)
      then show "isNumber c" using num nth len by simp
    qed
    then have "list_all isNumber (map combined ?sc)" by (simp add: list_all_iff)
    then have b: "(\<forall>j < length ?sc. ?key (?sc ! i) \<le> ?key (?sc ! j))
                  \<and> (\<forall>j < i. ?key (?sc ! i) < ?key (?sc ! j))"
      using best by blast
    have le: "\<forall>j < length (weekScores st). cs ! j \<le> cs ! i"
    proof (intro allI impI)
      fix j assume j: "j < length (weekScores st)"
      then have "?key (?sc ! i) \<le> ?key (?sc ! j)" using b len by simp
      then show "cs ! j \<le> cs ! i" using key[OF j] key[OF i'] by simp
    qed
    have lt: "\<forall>j < i. cs ! j < cs ! i"
    proof (intro allI impI)
      fix j assume j: "j < i"
      then have j': "j < length (weekScores st)" using i' by simp
      have "?key (?sc ! i) < ?key (?sc ! j)" using b j by simp
      then show "cs ! j < cs ! i" using key[OF j'] key[OF i'] by simp
    qed
    show "(\<forall>j < length (weekScores st). cs ! j \<le> cs ! i) \<and> (\<forall>j < i. cs ! j < cs ! i)"
      using le lt by simp
  qed
  show ?thesis using i' run ord by blast
qed

lemma recommendPickupDay_char:
  assumes "ws \<noteq> []"
  shows "\<exists>i < length ws.
           recommendPickupDay rt ws items meals
             = Inr \<lparr>day = date (ws ! i), dayIndex = i,
                    pickup_reasoning =
                      buildReasoning rt (ws ! i) (fl rt (100 - finalScore (ws ! i)))
                        (computeFreshnessScore rt (date (ws ! i)) items meals) items meals,
                    pickup_score = combined (scoreCandidate rt items meals (ws ! i) i)\<rparr>
           \<and> ((\<forall>j < length ws. combined (scoreCandidate rt items meals (ws ! j) j) = Num (cs ! j))
                \<longrightarrow> (\<forall>j < length ws. cs ! j \<le> cs ! i) \<and> (\<forall>j < i. cs ! j < cs ! i))"
proof -
  let ?st = "\<lparr>weekScores = ws, groceryItems = items, perishableMealDates = meals, scored = []\<rparr>"
  have ne: "weekScores ?st \<noteq> []" using assms by simp
  from recommendPickupDay_run_char[OF ne, of rt cs] obtain i where
    "i < length ws"
    "recommendPickupDay_run rt ?st
       = Inr (\<lparr>day = date (ws ! i), dayIndex = i,
               pickup_reasoning =
                 buildReasoning rt (ws ! i) (fl rt (100 - finalScore (ws ! i)))
                   (computeFreshnessScore rt (date (ws ! i)) items meals) items meals,
               pickup_score = combined (scoreCandidate rt items meals (ws ! i) i)\<rparr>,
              sortScored rt (mapCandidates rt ?st))"
    "(\<forall>j < length ws. combined (scoreCandidate rt items meals (ws ! j) j) = Num (cs ! j))
       \<longrightarrow> (\<forall>j < length ws. cs ! j \<le> cs ! i) \<and> (\<forall>j < i. cs ! j < cs ! i)"
    by auto
  then show ?thesis
    unfolding recommendPickupDay_def by (intro exI[of _ i]) simp
qed

section \<open>C8: the empty week is the one input refused\<close>

text \<open>
  C8. Called with an empty \<open>weekScores\<close>, \<open>recommendPickupDay\<close> throws the error
  "weekScores must contain at least one day"; called with any non-empty \<open>weekScores\<close>,
  whatever the grocery items and perishable meal dates (empty or not), it returns a
  recommendation.
\<close>

theorem C8_empty_week_rejected:
  "recommendPickupDay rt [] items meals = Inl (Error ''weekScores must contain at least one day'')
   \<and> (ws \<noteq> [] \<longrightarrow> (\<exists>r. recommendPickupDay rt ws items meals = Inr r))"
proof -
  have "recommendPickupDay rt [] items meals
          = Inl (Error ''weekScores must contain at least one day'')"
    unfolding recommendPickupDay_def recommendPickupDay_run_def by simp
  moreover have "ws \<noteq> [] \<longrightarrow> (\<exists>r. recommendPickupDay rt ws items meals = Inr r)"
    using recommendPickupDay_char[of ws rt items meals] by blast
  ultimately show ?thesis by simp
qed

theorem C8_witness:
  "recommendPickupDay nodeUTC [] [] [] = Inl (Error ''weekScores must contain at least one day'')
   \<and> [makeDayScore baseDate 80 quick] \<noteq> []
   \<and> (\<exists>r. recommendPickupDay nodeUTC [makeDayScore baseDate 80 quick] [] [] = Inr r)"
  using C8_empty_week_rejected[of nodeUTC "[]" "[]" "[makeDayScore baseDate 80 quick]"]
  by simp

section \<open>C10: the recommendation is consistent with the week it was given\<close>

lemma combined_scoreCandidate:
  "combined (scoreCandidate rt items meals ds i)
     = jsAdd rt (jsMul rt (Num (fl rt (6 / 10))) (Num (fl rt (100 - finalScore ds))))
                (jsMul rt (Num (fl rt (4 / 10))) (computeFreshnessScore rt (date ds) items meals))"
  unfolding scoreCandidate_def CALENDAR_WEIGHT_def FRESHNESS_WEIGHT_def by (simp add: Let_def)

lemma combined_exact:
  assumes "fl rt = (\<lambda>x. x)"
    and "computeFreshnessScore rt (date ds) items meals = Num f"
  shows "combined (scoreCandidate rt items meals ds i)
           = Num (6 / 10 * (100 - finalScore ds) + 4 / 10 * f)"
  unfolding combined_scoreCandidate using assms by (simp add: jsAdd_def jsMul_def)

text \<open>
  C10. For a non-empty week the recommendation returned satisfies
  \<open>0 \<le> dayIndex < weekScores.length\<close>; its day is the date of \<open>weekScores[dayIndex]\<close>;
  its score is \<open>0.6 * (100 - weekScores[dayIndex].finalScore)\<close> plus 0.4 times the
  freshness component of that same day, each operation rounded as the runtime rounds it
  (so exactly that value in exact arithmetic); and the three input arrays are the same
  after the call as before it (only the local array \<open>scored\<close> is sorted in place).
\<close>

theorem C10_recommendation_consistent:
  assumes "ws \<noteq> []"
  shows "\<exists>r st'.
           recommendPickupDay_run rt
               \<lparr>weekScores = ws, groceryItems = items, perishableMealDates = meals, scored = []\<rparr>
             = Inr (r, st')
           \<and> recommendPickupDay rt ws items meals = Inr r
           \<and> dayIndex r < length ws
           \<and> day r = date (ws ! dayIndex r)
           \<and> pickup_score r
               = jsAdd rt
                   (jsMul rt (Num (fl rt (6 / 10))) (Num (fl rt (100 - finalScore (ws ! dayIndex r)))))
                   (jsMul rt (Num (fl rt (4 / 10)))
                      (computeFreshnessScore rt (date (ws ! dayIndex r)) items meals))
           \<and> (\<forall>f. fl rt = (\<lambda>x. x)
                     \<and> computeFreshnessScore rt (date (ws ! dayIndex r)) items meals = Num f
                 \<longrightarrow> pickup_score r
                       = Num (6 / 10 * (100 - finalScore (ws ! dayIndex r)) + 4 / 10 * f))
           \<and> weekScores st' = ws \<and> groceryItems st' = items \<and> perishableMealDates st' = meals"
proof -
  let ?st = "\<lparr>weekScores = ws, groceryItems = items, perishableMealDates = meals, scored = []\<rparr>"
  have ne: "weekScores ?st \<noteq> []" using assms by simp
  from recommendPickupDay_run_char[OF ne, of rt "[]"] obtain i where i: "i < length ws"
    and run: "recommendPickupDay_run rt ?st
       = Inr (\<lparr>day = date (ws ! i), dayIndex = i,
               pickup_reasoning =
                 buildReasoning rt (ws ! i) (fl rt (100 - finalScore (ws ! i)))
                   (computeFreshnessScore rt (date (ws ! i)) items meals) items meals,
               pickup_score = combined (scoreCandidate rt items meals (ws ! i) i)\<rparr>,
              sortScored rt (mapCandidates rt ?st))"
    by auto
  let ?r = "\<lparr>day = date (ws ! i), dayIndex = i,
             pickup_reasoning =
               buildReasoning rt (ws ! i) (fl rt (100 - finalScore (ws ! i)))
                 (computeFreshnessScore rt (date (ws ! i)) items meals) items meals,
             pickup_score = combined (scoreCandidate rt items meals (ws ! i) i)\<rparr>"
  let ?st' = "sortScored rt (mapCandidates rt ?st)"
  have pure: "recommendPickupDay rt ws items meals = Inr ?r"
    unfolding recommendPickupDay_def using run by simp
  have kept: "weekScores ?st' = ws" "groceryItems ?st' = items" "perishableMealDates ?st' = meals"
    by (simp_all add: sortScored_inputs mapCandidates_inputs)
  have sc: "pickup_score ?r
              = jsAdd rt
                  (jsMul rt (Num (fl rt (6 / 10))) (Num (fl rt (100 - finalScore (ws ! dayIndex ?r)))))
                  (jsMul rt (Num (fl rt (4 / 10)))
                     (computeFreshnessScore rt (date (ws ! dayIndex ?r)) items meals))"
    by (simp add: combined_scoreCandidate)
  have ex: "\<forall>f. fl rt = (\<lambda>x. x)
                 \<and> computeFreshnessScore rt (date (ws ! dayIndex ?r)) items meals = Num f
              \<longrightarrow> pickup_score ?r
                    = Num (6 / 10 * (100 - finalScore (ws ! dayIndex ?r)) + 4 / 10 * f)"
    by (simp add: combined_exact)
  have idx: "dayIndex ?r < length ws" using i by simp
  have dy: "day ?r = date (ws ! dayIndex ?r)" by simp
  have "recommendPickupDay_run rt ?st = Inr (?r, ?st')
        \<and> recommendPickupDay rt ws items meals = Inr ?r
        \<and> dayIndex ?r < length ws
        \<and> day ?r = date (ws ! dayIndex ?r)
        \<and> pickup_score ?r
            = jsAdd rt
                (jsMul rt (Num (fl rt (6 / 10))) (Num (fl rt (100 - finalScore (ws ! dayIndex ?r)))))
                (jsMul rt (Num (fl rt (4 / 10)))
                   (computeFreshnessScore rt (date (ws ! dayIndex ?r)) items meals))
        \<and> (\<forall>f. fl rt = (\<lambda>x. x)
                  \<and> computeFreshnessScore rt (date (ws ! dayIndex ?r)) items meals = Num f
              \<longrightarrow> pickup_score ?r
                    = Num (6 / 10 * (100 - finalScore (ws ! dayIndex ?r)) + 4 / 10 * f))
        \<and> weekScores ?st' = ws \<and> groceryItems ?st' = items \<and> perishableMealDates ?st' = meals"
    by (intro conjI run pure idx dy sc ex kept)
  then show ?thesis by blast
qed

theorem C10_witness:
  "sampleWeek \<noteq> []
   \<and> recommendPickupDay nodeUTC sampleWeek [makeGroceryItem ''Salmon'' ''Seafood''] seafoodFriday
       = Inr \<lparr>day = 1740096000000, dayIndex = 4,
              pickup_reasoning = ''Friday is recommended for grocery pickup. Your calendar is very open that day. Perishable items (Seafood) stay freshest with this timing.'',
              pickup_score = Num 82\<rparr>
   \<and> date (sampleWeek ! 4) = 1740096000000
   \<and> jsAdd nodeUTC
         (jsMul nodeUTC (Num (fl nodeUTC (6 / 10))) (Num (fl nodeUTC (100 - finalScore (sampleWeek ! 4)))))
         (jsMul nodeUTC (Num (fl nodeUTC (4 / 10)))
            (computeFreshnessScore nodeUTC (date (sampleWeek ! 4))
               [makeGroceryItem ''Salmon'' ''Seafood''] seafoodFriday)) = Num 82"
proof -
  have ne: "sampleWeek \<noteq> []" by (simp add: sampleWeek_def)
  have v: "recommendPickupDay nodeUTC sampleWeek [makeGroceryItem ''Salmon'' ''Seafood''] seafoodFriday
       = Inr \<lparr>day = 1740096000000, dayIndex = 4,
              pickup_reasoning = ''Friday is recommended for grocery pickup. Your calendar is very open that day. Perishable items (Seafood) stay freshest with this timing.'',
              pickup_score = Num 82\<rparr>"
    by code_simp
  from C10_recommendation_consistent[OF ne, of nodeUTC "[makeGroceryItem ''Salmon'' ''Seafood'']"
         seafoodFriday] v
  have d: "date (sampleWeek ! 4) = 1740096000000"
    and e: "jsAdd nodeUTC
         (jsMul nodeUTC (Num (fl nodeUTC (6 / 10))) (Num (fl nodeUTC (100 - finalScore (sampleWeek ! 4)))))
         (jsMul nodeUTC (Num (fl nodeUTC (4 / 10)))
            (computeFreshnessScore nodeUTC (date (sampleWeek ! 4))
               [makeGroceryItem ''Salmon'' ''Seafood''] seafoodFriday)) = Num 82"
    by auto
  show ?thesis by (intro conjI ne v d e)
qed

section \<open>The accuracy of rounding to the nearest double\<close>

lemma bitlen_upper: "0 \<le> n \<Longrightarrow> n < 2 ^ bitlen n"
proof (induction n rule: bitlen.induct)
  case (1 n)
  show ?case
  proof (cases "n \<le> 0")
    case True
    then show ?thesis using 1 by (simp add: bitlen.simps)
  next
    case False
    then have "n div 2 < 2 ^ bitlen (n div 2)" using 1 by simp
    then have "n < 2 * 2 ^ bitlen (n div 2)" by linarith
    then show ?thesis using False by (simp add: bitlen.simps[of n])
  qed
qed

lemma bitlen_lower: "0 < n \<Longrightarrow> 2 ^ bitlen n \<le> 2 * n"
proof (induction n rule: bitlen.induct)
  case (1 n)
  show ?case
  proof (cases "n div 2 = 0")
    case True
    then have "n = 1" using 1(2) by linarith
    then show ?thesis by (simp add: bitlen.simps[of 1] bitlen.simps[of 0])
  next
    case False
    then have pos: "0 < n div 2" using 1(2) by linarith
    then have "2 ^ bitlen (n div 2) \<le> 2 * (n div 2)" using 1 by simp
    then have "2 * 2 ^ bitlen (n div 2) \<le> 2 * n" by linarith
    then show ?thesis using 1(2) by (simp add: bitlen.simps[of n])
  qed
qed

lemma pow2_powi: "pow2 k = power_int 2 k"
  unfolding pow2_def power_int_def by (simp add: field_simps)


lemma floorLog2_le:
  assumes "0 < x"
  shows "power_int 2 (floorLog2 x) \<le> x"
proof -
  obtain p q where pq: "quotient_of x = (p, q)" by (cases "quotient_of x")
  have q: "0 < q" using quotient_of_denom_pos[OF pq] .
  have x: "x = of_int p / of_int q" using quotient_of_div[OF pq] .
  have p: "0 < p"
  proof (rule ccontr)
    assume "\<not> 0 < p"
    then have "of_int p \<le> (0::rat)" by simp
    then have "x \<le> 0" unfolding x using q by (simp add: divide_le_0_iff)
    then show False using assms by simp
  qed
  define a where "a = int (bitlen p) - int (bitlen q)"
  have fl: "floorLog2 x = (if pow2 a \<le> x then a else a - 1)"
    unfolding floorLog2_def pq a_def by (simp add: Let_def)
  have lo: "(2::int) ^ bitlen p \<le> 2 * p" using bitlen_lower[OF p] .
  have hi: "q < 2 ^ bitlen q" using bitlen_upper[of q] q by simp
  have "(2::int) ^ bitlen p * q \<le> (2 * p) * 2 ^ bitlen q"
    using lo hi p q by (intro mult_mono) simp_all
  then have "of_int ((2::int) ^ bitlen p * q) \<le> (of_int ((2 * p) * 2 ^ bitlen q) :: rat)"
    by (rule of_int_le_iff[THEN iffD2])
  then have m: "(2::rat) ^ bitlen p * of_int q \<le> 2 * of_int p * 2 ^ bitlen q"
    by simp
  have e: "power_int (2::rat) (a - 1) = 2 ^ bitlen p / (2 * 2 ^ bitlen q)"
    unfolding a_def by (simp add: power_int_diff)
  have "(2::rat) ^ bitlen p / (2 * 2 ^ bitlen q) \<le> of_int p / of_int q"
    using m q by (simp add: field_simps)
  then have "power_int 2 (a - 1) \<le> x" unfolding e x .
  then show ?thesis unfolding fl by (simp add: pow2_powi)
qed

lemma roundHalfEven_err: "\<bar>of_int (roundHalfEven y) - y\<bar> \<le> 1 / 2"
proof -
  define r where "r = y - of_int \<lfloor>y\<rfloor>"
  have r: "0 \<le> r" "r < 1" unfolding r_def by linarith+
  have y: "y = of_int \<lfloor>y\<rfloor> + r" unfolding r_def by simp
  have dn: "\<bar>of_int \<lfloor>y\<rfloor> - y\<bar> = r" using r y by linarith
  have up: "\<bar>of_int (\<lfloor>y\<rfloor> + 1) - y\<bar> = 1 - r" using r y by simp
  consider "r < 1 / 2" | "1 / 2 < r" | "r = 1 / 2" by linarith
  then show ?thesis
  proof cases
    case 1
    then have "roundHalfEven y = \<lfloor>y\<rfloor>" unfolding roundHalfEven_def Let_def r_def by simp
    then show ?thesis using dn 1 by simp
  next
    case 2
    then have "roundHalfEven y = \<lfloor>y\<rfloor> + 1" unfolding roundHalfEven_def Let_def r_def by simp
    then show ?thesis using up 2 by simp
  next
    case 3
    then have "roundHalfEven y = \<lfloor>y\<rfloor> \<or> roundHalfEven y = \<lfloor>y\<rfloor> + 1"
      unfolding roundHalfEven_def Let_def r_def by simp
    then show ?thesis using dn up 3 by auto
  qed
qed

lemma ieee_round_err:
  assumes "\<bar>x\<bar> < power_int 2 (k + 1)" and "- 1022 \<le> k"
  shows "\<bar>ieee_round x - x\<bar> \<le> power_int 2 (k - 53)"
proof (cases "x = 0")
  case True
  then show ?thesis by (simp add: ieee_round_def)
next
  case False
  then have pos: "0 < \<bar>x\<bar>" by simp
  define e where "e = max (floorLog2 \<bar>x\<bar>) (- 1022)"
  define q where "q = power_int (2::rat) (e - 52)"
  have "power_int 2 (floorLog2 \<bar>x\<bar>) < power_int (2::rat) (k + 1)"
    using floorLog2_le[OF pos] assms(1) by simp
  then have "floorLog2 \<bar>x\<bar> < k + 1"
    using power_int_increasing[of "k + 1" "floorLog2 \<bar>x\<bar>" "2::rat"] by (cases "floorLog2 \<bar>x\<bar> < k + 1") auto
  then have ek: "e \<le> k" unfolding e_def using assms(2) by simp
  have qpos: "0 < q" unfolding q_def by simp
  have ir: "ieee_round x = of_int (roundHalfEven (x / q)) * q"
    unfolding ieee_round_def using False by (simp add: Let_def e_def q_def pow2_powi)
  have "ieee_round x - x = (of_int (roundHalfEven (x / q)) - x / q) * q"
    unfolding ir using qpos by (simp add: field_simps)
  then have "\<bar>ieee_round x - x\<bar> = \<bar>of_int (roundHalfEven (x / q)) - x / q\<bar> * q"
    using qpos by (simp add: abs_mult)
  also have "\<dots> \<le> 1 / 2 * q"
    using roundHalfEven_err[of "x / q"] qpos by (intro mult_right_mono) simp_all
  also have "1 / 2 * q = power_int 2 (e - 53)"
  proof -
    have "power_int (2::rat) (e - 52) = power_int 2 ((e - 53) + 1)" by simp
    also have "\<dots> = power_int 2 (e - 53) * 2" by (rule power_int_add_1) simp
    finally show ?thesis unfolding q_def by simp
  qed
  also have "\<dots> \<le> power_int 2 (k - 53)"
    using ek by (intro power_int_increasing) simp_all
  finally show ?thesis .
qed

lemma ieee_round_near:
  assumes "\<bar>x\<bar> < 128"
  shows "\<bar>ieee_round x - x\<bar> \<le> 1 / 2 ^ 47"
proof -
  have a: "power_int (2::rat) (6 + 1) = 128" by (simp add: power_int_def)
  have b: "power_int (2::rat) (6 - 53) = 1 / 2 ^ 47" by (simp add: power_int_def field_simps)
  show ?thesis using ieee_round_err[of x 6] assms unfolding a b by simp
qed


lemma weight_values:
  "ieee_round (6 / 10) = 5404319552844595 / 9007199254740992"
  "ieee_round (ieee_round (4 / 10) * 50) = 20"
  by code_simp+

lemma abs_diff_range: "\<bar>c - a\<bar> \<le> d \<Longrightarrow> a - d \<le> c \<and> c \<le> a + d" for a c d :: rat
  by linarith

lemma abs_diff_chain3:
  "\<bar>g - (t + k)\<bar> \<le> d \<Longrightarrow> \<bar>t - u\<bar> \<le> d \<Longrightarrow> \<bar>u - v\<bar> \<le> d \<Longrightarrow> \<bar>g - (v + k)\<bar> \<le> 3 * d"
  for g t u v k d :: rat
  by linarith

lemma separated:
  fixes g g' w f f' e :: rat
  assumes "\<bar>g - (w * (100 - f) + 20)\<bar> \<le> e" and "\<bar>g' - (w * (100 - f') + 20)\<bar> \<le> e"
    and "f + 1 \<le> f'" and "2 * e < w"
  shows "g' < g"
proof -
  have "0 \<le> e" using assms(1) by linarith
  then have "0 \<le> w" using assms(4) by linarith
  then have "w * (f + 1) \<le> w * f'" using assms(3) by (rule mult_left_mono[rotated])
  then have m: "w * f + w \<le> w * f'" by (simp add: algebra_simps)
  have a: "w * (100 - f) = w * 100 - w * f" "w * (100 - f') = w * 100 - w * f'"
    by (simp_all add: algebra_simps)
  show ?thesis using assms(1,2,4) m unfolding a by linarith
qed

lemma doubles_combined_near:
  assumes "0 \<le> f" and "f \<le> 100"
  shows "\<bar>ieee_round (ieee_round (ieee_round (6 / 10) * ieee_round (100 - f))
                      + ieee_round (ieee_round (4 / 10) * 50))
          - (5404319552844595 / 9007199254740992 * (100 - f) + 20)\<bar> \<le> 3 * (1 / 2 ^ 47)"
proof -
  define w :: rat where "w = 5404319552844595 / 9007199254740992"
  define d :: rat where "d = 1 / 2 ^ 47"
  define c where "c = ieee_round (100 - f)"
  define t where "t = ieee_round (w * c)"
  have w: "0 \<le> w" "w \<le> 1" unfolding w_def by simp_all
  have dd: "0 \<le> d" "d \<le> 1" unfolding d_def by simp_all
  have "\<bar>100 - f\<bar> < 128" using assms by linarith
  then have c: "\<bar>c - (100 - f)\<bar> \<le> d"
    unfolding c_def d_def by (rule ieee_round_near)
  have cb: "- 1 \<le> c" "c \<le> 101" using abs_diff_range[OF c] assms dd by linarith+
  have wc0: "w * c \<le> 101"
  proof (cases "0 \<le> c")
    case True
    then have "w * c \<le> 1 * 101" using w cb by (intro mult_mono) simp_all
    then show ?thesis by simp
  next
    case False
    then have "w * c \<le> 0" using w by (simp add: mult_le_0_iff)
    then show ?thesis by linarith
  qed
  have wc1: "- 1 \<le> w * c"
  proof (cases "0 \<le> c")
    case True
    then have "0 \<le> w * c" using w by simp
    then show ?thesis by linarith
  next
    case False
    then have "w * (- c) \<le> 1 * 1" using w cb by (intro mult_mono) simp_all
    then show ?thesis by simp
  qed
  have "\<bar>w * c\<bar> < 128" using wc0 wc1 by linarith
  then have t: "\<bar>t - w * c\<bar> \<le> d"
    unfolding t_def d_def by (rule ieee_round_near)
  have "\<bar>w * c - w * (100 - f)\<bar> = w * \<bar>c - (100 - f)\<bar>"
    using w by (simp add: abs_mult flip: right_diff_distrib)
  also have "\<dots> \<le> 1 * d" using w c by (intro mult_mono) simp_all
  finally have u: "\<bar>w * c - w * (100 - f)\<bar> \<le> d" by simp
  have "\<bar>t + 20\<bar> < 128" using abs_diff_range[OF t] wc0 wc1 dd by linarith
  then have g: "\<bar>ieee_round (t + 20) - (t + 20)\<bar> \<le> d"
    unfolding d_def by (rule ieee_round_near)
  have "\<bar>ieee_round (t + 20) - (w * (100 - f) + 20)\<bar> \<le> 3 * d"
    using g t u by (rule abs_diff_chain3)
  then show ?thesis
    unfolding weight_values t_def c_def w_def d_def .
qed

lemma doubles_combined_strict:
  assumes "0 \<le> f" and "f + 1 \<le> f'" and "f' \<le> 100"
  shows "ieee_round (ieee_round (ieee_round (6 / 10) * ieee_round (100 - f'))
                      + ieee_round (ieee_round (4 / 10) * 50))
         < ieee_round (ieee_round (ieee_round (6 / 10) * ieee_round (100 - f))
                      + ieee_round (ieee_round (4 / 10) * 50))"
proof -
  have a: "0 \<le> f" "f \<le> 100" using assms by linarith+
  have b: "0 \<le> f'" "f' \<le> 100" using assms by linarith+
  have e: "2 * (3 * (1 / 2 ^ 47)) < (5404319552844595 / 9007199254740992 :: rat)" by simp
  show ?thesis
    using doubles_combined_near[OF a] doubles_combined_near[OF b] assms(2) e
    by (rule separated)
qed

section \<open>C2: without perishable meal dates the least busy day wins\<close>

lemma freshness_neutral: "computeFreshnessScore rt d items [] = Num 50"
  unfolding computeFreshnessScore_def by simp

lemma exactArithmetic_fl: "fl (exactArithmetic rt) = (\<lambda>x. x)"
  unfolding exactArithmetic_def by simp

lemma ieeeDoubles_fl: "fl (ieeeDoubles rt) = ieee_round"
  unfolding ieeeDoubles_def by simp

lemma combined_doubles_neutral:
  "combined (scoreCandidate (ieeeDoubles rt) items [] ds i)
     = Num (ieee_round (ieee_round (ieee_round (6 / 10) * ieee_round (100 - finalScore ds))
                        + ieee_round (ieee_round (4 / 10) * 50)))"
  unfolding combined_scoreCandidate freshness_neutral
  by (simp add: jsAdd_def jsMul_def ieeeDoubles_fl)

lemma ints_step:
  fixes x y :: rat
  assumes "x \<in> \<int>" and "y \<in> \<int>" and "x < y"
  shows "x + 1 \<le> y"
proof -
  obtain a b where x: "x = of_int a" and y: "y = of_int b"
    using assms(1,2) by (auto elim!: Ints_cases)
  have "a < b" using assms(3) unfolding x y by simp
  then have "a + 1 \<le> b" by simp
  then have "(of_int (a + 1) :: rat) \<le> of_int b" by (simp only: of_int_le_iff)
  then show ?thesis unfolding x y by simp
qed

text \<open>
  C2. For every non-empty week (seven days in particular) and every grocery list, when
  there are no perishable meal dates each day's freshness component is 50 and
  \<open>recommendPickupDay\<close> returns a day of the week whose final score is the minimum
  final score of the week. This holds for any final scores when the combined score is
  computed exactly, and in the arithmetic of doubles when the final scores are integers
  from 0 to 100, which is what a \<open>DayScore\<close> carries.
\<close>

theorem C2_no_perishables_min_finalScore:
  assumes "ws \<noteq> []"
  shows "(\<exists>r. recommendPickupDay (exactArithmetic rt) ws items [] = Inr r
            \<and> dayIndex r < length ws
            \<and> day r = date (ws ! dayIndex r)
            \<and> finalScore (ws ! dayIndex r) = Min (finalScore ` set ws)
            \<and> (\<forall>ds \<in> set ws. computeFreshnessScore (exactArithmetic rt) (date ds) items [] = Num 50))
         \<and> ((\<forall>ds \<in> set ws. finalScore ds \<in> \<int> \<and> 0 \<le> finalScore ds \<and> finalScore ds \<le> 100)
              \<longrightarrow> (\<exists>r. recommendPickupDay (ieeeDoubles rt) ws items [] = Inr r
                    \<and> dayIndex r < length ws
                    \<and> day r = date (ws ! dayIndex r)
                    \<and> finalScore (ws ! dayIndex r) = Min (finalScore ` set ws)
                    \<and> (\<forall>ds \<in> set ws.
                          computeFreshnessScore (ieeeDoubles rt) (date ds) items [] = Num 50)))"
proof (intro conjI impI)
  let ?rt = "exactArithmetic rt"
  let ?cs = "map (\<lambda>ds. 6 / 10 * (100 - finalScore ds) + 4 / 10 * 50) ws"
  have num: "\<forall>j < length ws. combined (scoreCandidate ?rt items [] (ws ! j) j) = Num (?cs ! j)"
    by (simp add: combined_exact[OF exactArithmetic_fl freshness_neutral])
  from recommendPickupDay_char[OF assms, of ?rt items "[]" ?cs] num obtain i
    where i: "i < length ws"
    and r: "recommendPickupDay ?rt ws items []
              = Inr \<lparr>day = date (ws ! i), dayIndex = i,
                     pickup_reasoning =
                       buildReasoning ?rt (ws ! i) (fl ?rt (100 - finalScore (ws ! i)))
                         (computeFreshnessScore ?rt (date (ws ! i)) items []) items [],
                     pickup_score = combined (scoreCandidate ?rt items [] (ws ! i) i)\<rparr>"
    and le: "\<forall>j < length ws. ?cs ! j \<le> ?cs ! i"
    by blast
  have least: "\<forall>ds \<in> set ws. finalScore (ws ! i) \<le> finalScore ds"
  proof
    fix ds assume "ds \<in> set ws"
    then obtain j where j: "j < length ws" and ds: "ds = ws ! j"
      by (auto simp: in_set_conv_nth)
    have "?cs ! j \<le> ?cs ! i" using le j by simp
    then show "finalScore (ws ! i) \<le> finalScore ds"
      using i j ds by simp
  qed
  have "finalScore (ws ! i) \<in> finalScore ` set ws" using i by simp
  then have mn: "finalScore (ws ! i) = Min (finalScore ` set ws)"
    using least by (intro Min_eqI[symmetric]) auto
  show "\<exists>r. recommendPickupDay ?rt ws items [] = Inr r
            \<and> dayIndex r < length ws
            \<and> day r = date (ws ! dayIndex r)
            \<and> finalScore (ws ! dayIndex r) = Min (finalScore ` set ws)
            \<and> (\<forall>ds \<in> set ws. computeFreshnessScore ?rt (date ds) items [] = Num 50)"
    using r i mn freshness_neutral by simp
next
  assume scores: "\<forall>ds \<in> set ws. finalScore ds \<in> \<int> \<and> 0 \<le> finalScore ds \<and> finalScore ds \<le> 100"
  let ?rt = "ieeeDoubles rt"
  let ?g = "\<lambda>f. ieee_round (ieee_round (ieee_round (6 / 10) * ieee_round (100 - f))
                             + ieee_round (ieee_round (4 / 10) * 50))"
  let ?cs = "map (\<lambda>ds. ?g (finalScore ds)) ws"
  have num: "\<forall>j < length ws. combined (scoreCandidate ?rt items [] (ws ! j) j) = Num (?cs ! j)"
    by (simp add: combined_doubles_neutral)
  from recommendPickupDay_char[OF assms, of ?rt items "[]" ?cs] num obtain i
    where i: "i < length ws"
    and r: "recommendPickupDay ?rt ws items []
              = Inr \<lparr>day = date (ws ! i), dayIndex = i,
                     pickup_reasoning =
                       buildReasoning ?rt (ws ! i) (fl ?rt (100 - finalScore (ws ! i)))
                         (computeFreshnessScore ?rt (date (ws ! i)) items []) items [],
                     pickup_score = combined (scoreCandidate ?rt items [] (ws ! i) i)\<rparr>"
    and le: "\<forall>j < length ws. ?cs ! j \<le> ?cs ! i"
    by blast
  have least: "\<forall>ds \<in> set ws. finalScore (ws ! i) \<le> finalScore ds"
  proof
    fix ds assume mem: "ds \<in> set ws"
    then obtain j where j: "j < length ws" and ds: "ds = ws ! j"
      by (auto simp: in_set_conv_nth)
    have cmp: "?g (finalScore ds) \<le> ?g (finalScore (ws ! i))"
      using le i j ds by simp
    show "finalScore (ws ! i) \<le> finalScore ds"
    proof (rule ccontr)
      assume "\<not> finalScore (ws ! i) \<le> finalScore ds"
      then have lt: "finalScore ds < finalScore (ws ! i)" by simp
      have a: "finalScore ds \<in> \<int>" "0 \<le> finalScore ds" using scores mem by simp_all
      have b: "finalScore (ws ! i) \<in> \<int>" "finalScore (ws ! i) \<le> 100" using scores i by simp_all
      have "finalScore ds + 1 \<le> finalScore (ws ! i)" using a(1) b(1) lt by (rule ints_step)
      then have "?g (finalScore (ws ! i)) < ?g (finalScore ds)"
        using a(2) b(2) by (intro doubles_combined_strict)
      then show False using cmp by simp
    qed
  qed
  have "finalScore (ws ! i) \<in> finalScore ` set ws" using i by simp
  then have mn: "finalScore (ws ! i) = Min (finalScore ` set ws)"
    using least by (intro Min_eqI[symmetric]) auto
  show "\<exists>r. recommendPickupDay ?rt ws items [] = Inr r
            \<and> dayIndex r < length ws
            \<and> day r = date (ws ! dayIndex r)
            \<and> finalScore (ws ! dayIndex r) = Min (finalScore ` set ws)
            \<and> (\<forall>ds \<in> set ws. computeFreshnessScore ?rt (date ds) items [] = Num 50)"
    using r i mn freshness_neutral by simp
qed

theorem C2_witness:
  "sampleWeek \<noteq> [] \<and> length sampleWeek = 7
   \<and> map finalScore sampleWeek = [80, 50, 20, 60, 30, 10, 15]
   \<and> (case recommendPickupDay (exactArithmetic nodeUTC) sampleWeek
              [makeGroceryItem ''Rice'' ''Pantry''] [] of
         Inl e \<Rightarrow> False
       | Inr r \<Rightarrow> dayIndex r = 5 \<and> day r = 1740182400000)
   \<and> (case recommendPickupDay (ieeeDoubles nodeUTC) sampleWeek
              [makeGroceryItem ''Rice'' ''Pantry''] [] of
         Inl e \<Rightarrow> False
       | Inr r \<Rightarrow> dayIndex r = 5 \<and> day r = 1740182400000)
   \<and> ieeeDoubles nodeUTC = nodeUTC
   \<and> finalScore (sampleWeek ! 5) = 10
   \<and> Min (finalScore ` set sampleWeek) = 10"
proof -
  have ne: "sampleWeek \<noteq> []" by (simp add: sampleWeek_def)
  have len: "length sampleWeek = 7" by (simp add: sampleWeek_def)
  have sc: "map finalScore sampleWeek = [80, 50, 20, 60, 30, 10, 15]"
    by (simp add: sampleWeek_def makeDayScore_def)
  have same: "ieeeDoubles nodeUTC = nodeUTC"
    by (simp add: ieeeDoubles_def nodeUTC_def)
  have v: "(case recommendPickupDay (exactArithmetic nodeUTC) sampleWeek
                  [makeGroceryItem ''Rice'' ''Pantry''] [] of
         Inl e \<Rightarrow> False
       | Inr r \<Rightarrow> dayIndex r = 5 \<and> day r = 1740182400000)"
    by code_simp
  have "(case recommendPickupDay nodeUTC sampleWeek [makeGroceryItem ''Rice'' ''Pantry''] [] of
         Inl e \<Rightarrow> False
       | Inr r \<Rightarrow> dayIndex r = 5 \<and> day r = 1740182400000)"
    by code_simp
  then have w: "(case recommendPickupDay (ieeeDoubles nodeUTC) sampleWeek
                  [makeGroceryItem ''Rice'' ''Pantry''] [] of
         Inl e \<Rightarrow> False
       | Inr r \<Rightarrow> dayIndex r = 5 \<and> day r = 1740182400000)"
    unfolding same .
  have f: "finalScore (sampleWeek ! 5) = 10"
    by (simp add: sampleWeek_def makeDayScore_def)
  have ints: "\<forall>ds \<in> set sampleWeek. finalScore ds \<in> \<int> \<and> 0 \<le> finalScore ds \<and> finalScore ds \<le> 100"
    by (simp add: sampleWeek_def makeDayScore_def)
  from C2_no_perishables_min_finalScore[OF ne, of nodeUTC "[makeGroceryItem ''Rice'' ''Pantry'']"]
    ints w
  have m: "Min (finalScore ` set sampleWeek) = 10"
    using f by (auto split: sum.splits)
  show ?thesis by (intro conjI ne len sc v w same f m)
qed

section \<open>The freshness component is a number unless a category is an inherited name\<close>

lemma freshnessLoop_map:
  "freshnessLoop rt pickup meals acc = acc @ map (mealFreshness rt pickup) meals"
  by (induction meals arbitrary: acc) simp_all

lemma mealFreshness_isNumber:
  assumes "getShelfLife (meal_category m) \<noteq> InheritedMember"
  shows "\<exists>v. mealFreshness rt pickup m = Num v"
proof -
  from assms obtain e where "getShelfLife (meal_category m) = Entry e"
    by (cases "getShelfLife (meal_category m)") auto
  then show ?thesis
    unfolding mealFreshness_def lookup_maxDays_def by (simp add: Let_def)
qed

lemma foldl_jsAdd_isNumber:
  assumes "\<forall>s \<in> set ss. \<exists>v. s = Num v"
  shows "\<exists>t. foldl (\<lambda>sum s. jsAdd rt sum s) (Num a) ss = Num t"
  using assms
proof (induction ss arbitrary: a)
  case Nil
  then show ?case by simp
next
  case (Cons s ss)
  then obtain v where v: "s = Num v" by auto
  have "jsAdd rt (Num a) s = Num (fl rt (a + v))" using v by (simp add: jsAdd_def)
  then show ?case using Cons by simp
qed

lemma computeFreshnessScore_isNumber:
  assumes "\<forall>m \<in> set meals. getShelfLife (meal_category m) \<noteq> InheritedMember"
  shows "\<exists>f. computeFreshnessScore rt d items meals = Num f"
proof (cases "meals = []")
  case True
  then show ?thesis unfolding computeFreshnessScore_def by simp
next
  case False
  have "\<forall>s \<in> set (map (mealFreshness rt d) meals). \<exists>v. s = Num v"
    using assms mealFreshness_isNumber by auto
  then obtain t where t: "foldl (\<lambda>sum s. jsAdd rt sum s) (Num 0) (map (mealFreshness rt d) meals) = Num t"
    using foldl_jsAdd_isNumber by blast
  have "computeFreshnessScore rt d items meals
          = jsDiv rt (Num t) (Num (of_nat (length meals)))"
    unfolding computeFreshnessScore_def using False t
    by (simp add: Let_def freshnessLoop_map)
  then show ?thesis using False by (simp add: jsDiv_def)
qed

section \<open>C4: the highest combined score, the earliest day on a tie\<close>

text \<open>
  C4, as stated, does not hold of the code. With final scores 59, 100 and 9 and seafood
  planned for the second day, the freshness components are 75, 100 and 0 and the formula
  \<open>0.6 * availability + 0.4 * freshness\<close> gives the first and the third day the same
  combined score, 273/5; the earliest of the two is the first day. The code returns the
  third: in the arithmetic of doubles the first day's score comes out as
  54.599999999999994 and the third day's as 54.6.
\<close>

theorem C4_counterexample:
  "computeFreshnessScore nodeUTC (date (roundingWeek ! 0)) [] seafoodTuesday = Num 75
   \<and> computeFreshnessScore nodeUTC (date (roundingWeek ! 2)) [] seafoodTuesday = Num 0
   \<and> spec_combinedScore (100 - finalScore (roundingWeek ! 0)) 75 = 273 / 5
   \<and> spec_combinedScore (100 - finalScore (roundingWeek ! 2)) 0 = 273 / 5
   \<and> combined (scoreCandidate nodeUTC [] seafoodTuesday (roundingWeek ! 0) 0)
       = Num (1921066716050227 / 35184372088832)
   \<and> combined (scoreCandidate nodeUTC [] seafoodTuesday (roundingWeek ! 2) 2)
       = Num (7684266864200909 / 140737488355328)
   \<and> recommendPickupDay nodeUTC roundingWeek [] seafoodTuesday
       = Inr \<lparr>day = 1739923200000, dayIndex = 2,
              pickup_reasoning = ''Wednesday is recommended for grocery pickup. Your calendar is very open that day. Perishable items (Seafood) stay freshest with this timing.'',
              pickup_score = Num (7684266864200909 / 140737488355328)\<rparr>"
proof -
  have a: "computeFreshnessScore nodeUTC (date (roundingWeek ! 0)) [] seafoodTuesday = Num 75"
    by code_simp
  have b: "computeFreshnessScore nodeUTC (date (roundingWeek ! 2)) [] seafoodTuesday = Num 0"
    by code_simp
  have c: "spec_combinedScore (100 - finalScore (roundingWeek ! 0)) 75 = 273 / 5"
    by (simp add: spec_combinedScore_def roundingWeek_def makeDayScore_def)
  have d: "spec_combinedScore (100 - finalScore (roundingWeek ! 2)) 0 = 273 / 5"
    by (simp add: spec_combinedScore_def roundingWeek_def makeDayScore_def)
  have e: "combined (scoreCandidate nodeUTC [] seafoodTuesday (roundingWeek ! 0) 0)
             = Num (1921066716050227 / 35184372088832)"
    by code_simp
  have f: "combined (scoreCandidate nodeUTC [] seafoodTuesday (roundingWeek ! 2) 2)
             = Num (7684266864200909 / 140737488355328)"
    by code_simp
  have g: "recommendPickupDay nodeUTC roundingWeek [] seafoodTuesday
       = Inr \<lparr>day = 1739923200000, dayIndex = 2,
              pickup_reasoning = ''Wednesday is recommended for grocery pickup. Your calendar is very open that day. Perishable items (Seafood) stay freshest with this timing.'',
              pickup_score = Num (7684266864200909 / 140737488355328)\<rparr>"
    by code_simp
  show ?thesis by (intro conjI a b c d e f g)
qed

text \<open>
  C4, amended. For a non-empty week, and perishable meal dates whose categories are keys
  of the shelf-life table or fall to its default, \<open>recommendPickupDay\<close> returns the index
  of a candidate whose combined score as the code computes it (each operation of
  \<open>0.6 * (100 - finalScore) + 0.4 * freshness\<close> rounded by the runtime's arithmetic) no
  candidate exceeds; every candidate earlier in the week has a strictly lower computed
  score, so among days whose computed scores are exactly equal and highest the earliest
  is returned. The score returned is that computed score.
\<close>

theorem C4_highest_computed_score_earliest_on_tie:
  assumes "ws \<noteq> []"
    and "\<forall>m \<in> set meals. getShelfLife (meal_category m) \<noteq> InheritedMember"
  shows "\<exists>r cs. recommendPickupDay rt ws items meals = Inr r
           \<and> dayIndex r < length ws
           \<and> length cs = length ws
           \<and> (\<forall>j < length ws. \<exists>f.
                  computeFreshnessScore rt (date (ws ! j)) items meals = Num f
                  \<and> cs ! j = fl rt (fl rt (fl rt (6 / 10) * fl rt (100 - finalScore (ws ! j)))
                                    + fl rt (fl rt (4 / 10) * f)))
           \<and> pickup_score r = Num (cs ! dayIndex r)
           \<and> (\<forall>j < length ws. cs ! j \<le> cs ! dayIndex r)
           \<and> (\<forall>j < dayIndex r. cs ! j < cs ! dayIndex r)"
proof -
  let ?fr = "\<lambda>ds. case computeFreshnessScore rt (date ds) items meals of Num f \<Rightarrow> f | NaN \<Rightarrow> 0"
  let ?val = "\<lambda>ds. fl rt (fl rt (fl rt (6 / 10) * fl rt (100 - finalScore ds))
                           + fl rt (fl rt (4 / 10) * ?fr ds))"
  let ?cs = "map ?val ws"
  have fr: "computeFreshnessScore rt (date ds) items meals = Num (?fr ds)" for ds
    using computeFreshnessScore_isNumber[OF assms(2), of rt "date ds" items]
    by auto
  have comb: "combined (scoreCandidate rt items meals ds i) = Num (?val ds)" for ds i
  proof -
    obtain f where f: "computeFreshnessScore rt (date ds) items meals = Num f"
      using computeFreshnessScore_isNumber[OF assms(2)] by blast
    show ?thesis
      unfolding combined_scoreCandidate by (simp add: f jsAdd_def jsMul_def)
  qed
  have num: "\<forall>j < length ws. combined (scoreCandidate rt items meals (ws ! j) j) = Num (?cs ! j)"
    using comb by simp
  from recommendPickupDay_char[OF assms(1), of rt items meals ?cs] num obtain i
    where i: "i < length ws"
    and r: "recommendPickupDay rt ws items meals
              = Inr \<lparr>day = date (ws ! i), dayIndex = i,
                     pickup_reasoning =
                       buildReasoning rt (ws ! i) (fl rt (100 - finalScore (ws ! i)))
                         (computeFreshnessScore rt (date (ws ! i)) items meals) items meals,
                     pickup_score = combined (scoreCandidate rt items meals (ws ! i) i)\<rparr>"
    and le: "\<forall>j < length ws. ?cs ! j \<le> ?cs ! i"
    and lt: "\<forall>j < i. ?cs ! j < ?cs ! i"
    by blast
  let ?r = "\<lparr>day = date (ws ! i), dayIndex = i,
             pickup_reasoning =
               buildReasoning rt (ws ! i) (fl rt (100 - finalScore (ws ! i)))
                 (computeFreshnessScore rt (date (ws ! i)) items meals) items meals,
             pickup_score = combined (scoreCandidate rt items meals (ws ! i) i)\<rparr>"
  have p1: "dayIndex ?r < length ws" using i by simp
  have p2: "length ?cs = length ws" by simp
  have p3: "\<forall>j < length ws. \<exists>f.
              computeFreshnessScore rt (date (ws ! j)) items meals = Num f
              \<and> ?cs ! j = fl rt (fl rt (fl rt (6 / 10) * fl rt (100 - finalScore (ws ! j)))
                                + fl rt (fl rt (4 / 10) * f))"
    using fr by auto
  have p4: "pickup_score ?r = Num (?cs ! dayIndex ?r)"
    using comb i by simp
  have p5: "\<forall>j < length ws. ?cs ! j \<le> ?cs ! dayIndex ?r" using le by simp
  have p6: "\<forall>j < dayIndex ?r. ?cs ! j < ?cs ! dayIndex ?r" using lt by simp
  have "recommendPickupDay rt ws items meals = Inr ?r
        \<and> dayIndex ?r < length ws
        \<and> length ?cs = length ws
        \<and> (\<forall>j < length ws. \<exists>f.
               computeFreshnessScore rt (date (ws ! j)) items meals = Num f
               \<and> ?cs ! j = fl rt (fl rt (fl rt (6 / 10) * fl rt (100 - finalScore (ws ! j)))
                                 + fl rt (fl rt (4 / 10) * f)))
        \<and> pickup_score ?r = Num (?cs ! dayIndex ?r)
        \<and> (\<forall>j < length ws. ?cs ! j \<le> ?cs ! dayIndex ?r)
        \<and> (\<forall>j < dayIndex ?r. ?cs ! j < ?cs ! dayIndex ?r)"
    by (intro conjI r p1 p2 p3 p4 p5 p6)
  then show ?thesis by blast
qed

theorem C4_witness:
  "roundingWeek \<noteq> []
   \<and> getShelfLife (meal_category (seafoodTuesday ! 0)) \<noteq> InheritedMember
   \<and> recommendPickupDay nodeUTC roundingWeek [] seafoodTuesday
       = Inr \<lparr>day = 1739923200000, dayIndex = 2,
              pickup_reasoning = ''Wednesday is recommended for grocery pickup. Your calendar is very open that day. Perishable items (Seafood) stay freshest with this timing.'',
              pickup_score = Num (7684266864200909 / 140737488355328)\<rparr>
   \<and> combined (scoreCandidate nodeUTC [] seafoodTuesday (roundingWeek ! 0) 0)
       = Num (1921066716050227 / 35184372088832)
   \<and> (1921066716050227 / 35184372088832 :: rat) < 7684266864200909 / 140737488355328
   \<and> (case recommendPickupDay nodeUTC tieWeek [] [] of Inl e \<Rightarrow> False | Inr r \<Rightarrow> dayIndex r = 1)"
proof -
  have ne: "roundingWeek \<noteq> []" by (simp add: roundingWeek_def)
  have ok: "getShelfLife (meal_category (seafoodTuesday ! 0)) \<noteq> InheritedMember" by code_simp
  then have hyp: "\<forall>m \<in> set seafoodTuesday. getShelfLife (meal_category m) \<noteq> InheritedMember"
    by (simp add: seafoodTuesday_def)
  have v: "recommendPickupDay nodeUTC roundingWeek [] seafoodTuesday
       = Inr \<lparr>day = 1739923200000, dayIndex = 2,
              pickup_reasoning = ''Wednesday is recommended for grocery pickup. Your calendar is very open that day. Perishable items (Seafood) stay freshest with this timing.'',
              pickup_score = Num (7684266864200909 / 140737488355328)\<rparr>"
    by code_simp
  have c0: "combined (scoreCandidate nodeUTC [] seafoodTuesday (roundingWeek ! 0) 0)
              = Num (1921066716050227 / 35184372088832)"
    by code_simp
  have t: "(case recommendPickupDay nodeUTC tieWeek [] [] of
              Inl e \<Rightarrow> False | Inr r \<Rightarrow> dayIndex r = 1)"
    by code_simp
  from C4_highest_computed_score_earliest_on_tie[OF ne hyp, of nodeUTC "[]"] v
  obtain cs where cs2: "Num (cs ! 2) = Num (7684266864200909 / 140737488355328)"
    and f0: "\<exists>f. computeFreshnessScore nodeUTC (date (roundingWeek ! 0)) [] seafoodTuesday = Num f
                \<and> cs ! 0 = fl nodeUTC (fl nodeUTC (fl nodeUTC (6 / 10)
                                                     * fl nodeUTC (100 - finalScore (roundingWeek ! 0)))
                                        + fl nodeUTC (fl nodeUTC (4 / 10) * f))"
    and lt: "\<forall>j < (2::nat). cs ! j < cs ! 2"
    by (auto simp: roundingWeek_def)
  have "Num (cs ! 0) = combined (scoreCandidate nodeUTC [] seafoodTuesday (roundingWeek ! 0) 0)"
    using f0 unfolding combined_scoreCandidate by (auto simp: jsAdd_def jsMul_def)
  then have "cs ! 0 = 1921066716050227 / 35184372088832" using c0 by simp
  moreover have "cs ! 0 < cs ! 2" using lt by simp
  ultimately have less: "(1921066716050227 / 35184372088832 :: rat)
                          < 7684266864200909 / 140737488355328"
    using cs2 by simp
  show ?thesis by (intro conjI ne ok v c0 less t)
qed

section \<open>C3: the freshness component with perishable meal dates\<close>

lemma foldl_add_num:
  "foldl (\<lambda>sum s. jsAdd rt sum s) (Num a) (map Num vs) = Num (foldl (\<lambda>x y. fl rt (x + y)) a vs)"
  by (induction vs arbitrary: a) (simp_all add: jsAdd_def)

lemma foldl_plus_sum_list: "foldl (\<lambda>x y. x + y) (a::rat) vs = a + sum_list vs"
  by (induction vs arbitrary: a) (simp_all add: add.assoc)

lemma shelf_table_maxDays: "\<forall>p \<in> set SHELF_LIFE. 2 \<le> maxDays (snd p)"
  unfolding SHELF_LIFE_def by simp

lemma getShelfLife_entry_maxDays:
  assumes "getShelfLife c = Entry e"
  shows "2 \<le> maxDays e"
proof (cases "map_of SHELF_LIFE c")
  case None
  then have "e = DEFAULT_SHELF_LIFE"
    using assms unfolding getShelfLife_def by (simp split: if_splits)
  then show ?thesis unfolding DEFAULT_SHELF_LIFE_def by simp
next
  case (Some e')
  then have "(c, e') \<in> set SHELF_LIFE" by (rule map_of_SomeD)
  then have "2 \<le> maxDays e'" using shelf_table_maxDays by fastforce
  moreover have "e = e'" using assms Some unfolding getShelfLife_def by simp
  ultimately show ?thesis by simp
qed

lemma linear_low: "(q::rat) \<le> 1 \<Longrightarrow> 50 \<le> 100 - q * 50"
  by simp

lemma linear_high: "(0::rat) \<le> q \<Longrightarrow> 100 - q * 50 \<le> 100"
  by simp

lemma mealFreshness_exact_cases:
  fixes pickup :: Date and m :: PerishableMealDate
  assumes ex: "fl rt = (\<lambda>x. x)"
    and en: "getShelfLife (meal_category m) = Entry e"
    and gd: "gapDays = of_int (plannedDate m - pickup) / of_int MS_PER_DAY"
    and sh: "shelf = maxDays e"
  shows "0 < shelf"
    and "gapDays < 0 \<longrightarrow> mealFreshness rt pickup m = Num 0"
    and "0 \<le> gapDays \<and> gapDays \<le> shelf \<longrightarrow>
           mealFreshness rt pickup m = Num (100 - gapDays / shelf * 50)
           \<and> 50 \<le> 100 - gapDays / shelf * 50 \<and> 100 - gapDays / shelf * 50 \<le> 100"
    and "shelf < gapDays \<longrightarrow>
           mealFreshness rt pickup m = Num (max 0 (50 - min 100 ((gapDays - shelf) * 20)))
           \<and> 0 \<le> max 0 (50 - min 100 ((gapDays - shelf) * 20))
           \<and> max 0 (50 - min 100 ((gapDays - shelf) * 20)) < 50"
proof -
  show pos: "0 < shelf"
    using getShelfLife_entry_maxDays[OF en] sh by simp
  have mx: "lookup_maxDays (getShelfLife (meal_category m)) = Num shelf"
    using en sh by (simp add: lookup_maxDays_def)
  show "gapDays < 0 \<longrightarrow> mealFreshness rt pickup m = Num 0"
    unfolding mealFreshness_def Let_def using gd ex by simp
  show "0 \<le> gapDays \<and> gapDays \<le> shelf \<longrightarrow>
           mealFreshness rt pickup m = Num (100 - gapDays / shelf * 50)
           \<and> 50 \<le> 100 - gapDays / shelf * 50 \<and> 100 - gapDays / shelf * 50 \<le> 100"
  proof
    assume g: "0 \<le> gapDays \<and> gapDays \<le> shelf"
    have q0: "0 \<le> gapDays / shelf" using g pos by simp
    have q1: "gapDays / shelf \<le> 1" using g pos by (simp add: pos_divide_le_eq)
    have lo: "50 \<le> 100 - gapDays / shelf * 50" using q1 by (rule linear_low)
    have hi: "100 - gapDays / shelf * 50 \<le> 100" using q0 by (rule linear_high)
    have "mealFreshness rt pickup m = Num (max 0 (100 - gapDays / shelf * 50))"
      unfolding mealFreshness_def Let_def using gd ex mx g by simp
    then have "mealFreshness rt pickup m = Num (100 - gapDays / shelf * 50)"
      using lo by simp
    then show "mealFreshness rt pickup m = Num (100 - gapDays / shelf * 50)
               \<and> 50 \<le> 100 - gapDays / shelf * 50 \<and> 100 - gapDays / shelf * 50 \<le> 100"
      using lo hi by simp
  qed
  show "shelf < gapDays \<longrightarrow>
           mealFreshness rt pickup m = Num (max 0 (50 - min 100 ((gapDays - shelf) * 20)))
           \<and> 0 \<le> max 0 (50 - min 100 ((gapDays - shelf) * 20))
           \<and> max 0 (50 - min 100 ((gapDays - shelf) * 20)) < 50"
  proof
    assume g: "shelf < gapDays"
    then have ng: "\<not> gapDays < 0" "\<not> gapDays \<le> shelf" using pos by simp_all
    have eq: "mealFreshness rt pickup m = Num (max 0 (50 - min 100 ((gapDays - shelf) * 20)))"
      unfolding mealFreshness_def Let_def using gd ex mx ng by simp
    have "0 < min 100 ((gapDays - shelf) * 20)" using g by simp
    then have "max 0 (50 - min 100 ((gapDays - shelf) * 20)) < 50" by simp
    then show "mealFreshness rt pickup m = Num (max 0 (50 - min 100 ((gapDays - shelf) * 20)))
               \<and> 0 \<le> max 0 (50 - min 100 ((gapDays - shelf) * 20))
               \<and> max 0 (50 - min 100 ((gapDays - shelf) * 20)) < 50"
      using eq by simp
  qed
qed

text \<open>
  C3, as stated, does not hold of the code. Seafood is planned for Monday and for the Sunday
  before; the candidate day is Monday. The latest short- or medium-category date is
  Monday, so the gap of the statement is 0 and the freshness it gives is 100 (whatever the
  shortest shelf life of the grocery items is). The code gives 50: the mean of 100 for
  Monday's meal and 0 for Sunday's.
\<close>

theorem C3_counterexample:
  "spec_latestPerishableDate twoSeafoodMeals = Some baseDate
   \<and> spec_gapDays baseDate baseDate = 0
   \<and> spec_freshnessScore baseDate [makeGroceryItem ''Salmon'' ''Seafood''] twoSeafoodMeals = 100
   \<and> computeFreshnessScore nodeUTC baseDate [makeGroceryItem ''Salmon'' ''Seafood''] twoSeafoodMeals
       = Num 50
   \<and> computeFreshnessScore nodeUTC baseDate [makeGroceryItem ''Salmon'' ''Seafood''] twoSeafoodMeals
       \<noteq> Num (spec_freshnessScore baseDate [makeGroceryItem ''Salmon'' ''Seafood''] twoSeafoodMeals)"
proof -
  have a: "spec_latestPerishableDate twoSeafoodMeals = Some baseDate" by code_simp
  have b: "spec_gapDays baseDate baseDate = 0" by code_simp
  have c: "spec_freshnessScore baseDate [makeGroceryItem ''Salmon'' ''Seafood''] twoSeafoodMeals = 100"
    by code_simp
  have d: "computeFreshnessScore nodeUTC baseDate [makeGroceryItem ''Salmon'' ''Seafood'']
             twoSeafoodMeals = Num 50"
    by code_simp
  show ?thesis using a b c d by simp
qed

text \<open>
  C3, amended. When \<open>perishableMealDates\<close> is non-empty and every category in it is a
  key of the shelf-life table or falls to the default entry, the freshness component of a
  candidate day is the arithmetic mean over all perishable meal dates of a score per
  meal; the grocery items are not consulted and no single latest date is taken. For one
  meal, with \<open>gapDays = (plannedDate - candidateDate) / 1 day\<close> (not floored) and
  \<open>shelf\<close> the \<open>maxDays\<close> of the entry of the meal's own category (positive for every
  entry), the score is 0 when \<open>gapDays < 0\<close>; it is \<open>100 - 50 * gapDays / shelf\<close> when
  \<open>0 \<le> gapDays \<le> shelf\<close>, so 100 at gap 0 down to 50 at \<open>gapDays = shelf\<close>; and for
  larger gaps it is \<open>max 0 (50 - min 100 (20 * (gapDays - shelf)))\<close>, below 50 with a
  floor at 0. The runtime rounds each operation of these formulas; the values and bounds
  are exact when its arithmetic is.
\<close>

theorem C3_freshness_mean_of_meal_scores:
  assumes "meals \<noteq> []"
    and "\<forall>m \<in> set meals. getShelfLife (meal_category m) \<noteq> InheritedMember"
  shows "(\<exists>scores. map (mealFreshness (exactArithmetic rt) pickup) meals = map Num scores
             \<and> computeFreshnessScore (exactArithmetic rt) pickup items meals
                 = Num (sum_list scores / of_nat (length meals)))
         \<and> computeFreshnessScore rt pickup items meals = computeFreshnessScore rt pickup [] meals
         \<and> computeFreshnessScore rt pickup items meals
             = jsDiv rt (foldl (\<lambda>sum s. jsAdd rt sum s) (Num 0)
                           (map (mealFreshness rt pickup) meals))
                        (Num (of_nat (length meals)))
         \<and> (\<forall>m \<in> set meals. \<exists>e.
               getShelfLife (meal_category m) = Entry e
               \<and> 0 < maxDays e
               \<and> mealFreshness rt pickup m
                   = (let gapDays = fl rt (fl rt (of_int (plannedDate m - pickup))
                                            / of_int MS_PER_DAY);
                          shelf = maxDays e
                      in if gapDays < 0 then Num 0
                         else if gapDays \<le> shelf
                         then Num (max 0 (fl rt (100 - fl rt (fl rt (gapDays / shelf) * 50))))
                         else Num (max 0 (fl rt (50 - min 100
                                                  (fl rt (fl rt (gapDays - shelf) * 20))))))
               \<and> (of_int (plannedDate m - pickup) / of_int MS_PER_DAY < (0::rat)
                    \<longrightarrow> mealFreshness (exactArithmetic rt) pickup m = Num 0)
               \<and> (plannedDate m = pickup
                    \<longrightarrow> mealFreshness (exactArithmetic rt) pickup m = Num 100)
               \<and> (of_int (plannedDate m - pickup) / of_int MS_PER_DAY = maxDays e
                    \<longrightarrow> mealFreshness (exactArithmetic rt) pickup m = Num 50)
               \<and> ((0::rat) \<le> of_int (plannedDate m - pickup) / of_int MS_PER_DAY
                    \<and> of_int (plannedDate m - pickup) / of_int MS_PER_DAY \<le> maxDays e
                    \<longrightarrow> mealFreshness (exactArithmetic rt) pickup m
                          = Num (100 - (of_int (plannedDate m - pickup) / of_int MS_PER_DAY)
                                         / maxDays e * 50)
                        \<and> 50 \<le> 100 - (of_int (plannedDate m - pickup) / of_int MS_PER_DAY)
                                        / maxDays e * 50
                        \<and> 100 - (of_int (plannedDate m - pickup) / of_int MS_PER_DAY)
                                  / maxDays e * 50 \<le> 100)
               \<and> (maxDays e < of_int (plannedDate m - pickup) / of_int MS_PER_DAY
                    \<longrightarrow> mealFreshness (exactArithmetic rt) pickup m
                          = Num (max 0 (50 - min 100 ((of_int (plannedDate m - pickup)
                                                         / of_int MS_PER_DAY - maxDays e) * 20)))
                        \<and> 0 \<le> max 0 (50 - min 100 ((of_int (plannedDate m - pickup)
                                                        / of_int MS_PER_DAY - maxDays e) * 20))
                        \<and> max 0 (50 - min 100 ((of_int (plannedDate m - pickup)
                                                  / of_int MS_PER_DAY - maxDays e) * 20)) < 50))"
proof -
  let ?rt = "exactArithmetic rt"
  have ex: "fl ?rt = (\<lambda>x. x)" by (rule exactArithmetic_fl)
  let ?val = "\<lambda>m. case mealFreshness ?rt pickup m of Num v \<Rightarrow> v | NaN \<Rightarrow> 0"
  let ?scores = "map ?val meals"
  have each: "mealFreshness ?rt pickup m = Num (?val m)" if "m \<in> set meals" for m
  proof -
    have "getShelfLife (meal_category m) \<noteq> InheritedMember"
      using assms(2) that by simp
    then obtain v where "mealFreshness ?rt pickup m = Num v"
      using mealFreshness_isNumber[of m ?rt pickup] by auto
    then show ?thesis by simp
  qed
  have mp: "map (mealFreshness ?rt pickup) meals = map Num ?scores"
    using each by simp
  have "foldl (\<lambda>sum s. jsAdd ?rt sum s) (Num 0) (map (mealFreshness ?rt pickup) meals)
          = Num (sum_list ?scores)"
    unfolding mp foldl_add_num ex by (simp add: foldl_plus_sum_list)
  then have mean: "computeFreshnessScore ?rt pickup items meals
                     = Num (sum_list ?scores / of_nat (length meals))"
    unfolding computeFreshnessScore_def using assms(1)
    by (simp add: Let_def freshnessLoop_map jsDiv_def ex)
  have p1: "\<exists>scores. map (mealFreshness ?rt pickup) meals = map Num scores
              \<and> computeFreshnessScore ?rt pickup items meals
                  = Num (sum_list scores / of_nat (length meals))"
    using mp mean by blast
  have p2: "computeFreshnessScore rt pickup items meals = computeFreshnessScore rt pickup [] meals"
    unfolding computeFreshnessScore_def by simp
  have p3: "computeFreshnessScore rt pickup items meals
              = jsDiv rt (foldl (\<lambda>sum s. jsAdd rt sum s) (Num 0)
                            (map (mealFreshness rt pickup) meals))
                         (Num (of_nat (length meals)))"
    unfolding computeFreshnessScore_def using assms(1)
    by (simp add: Let_def freshnessLoop_map)
  have per: "\<exists>e.
               getShelfLife (meal_category m) = Entry e
               \<and> 0 < maxDays e
               \<and> mealFreshness rt pickup m
                   = (let gapDays = fl rt (fl rt (of_int (plannedDate m - pickup))
                                            / of_int MS_PER_DAY);
                          shelf = maxDays e
                      in if gapDays < 0 then Num 0
                         else if gapDays \<le> shelf
                         then Num (max 0 (fl rt (100 - fl rt (fl rt (gapDays / shelf) * 50))))
                         else Num (max 0 (fl rt (50 - min 100
                                                  (fl rt (fl rt (gapDays - shelf) * 20))))))
               \<and> (of_int (plannedDate m - pickup) / of_int MS_PER_DAY < (0::rat)
                    \<longrightarrow> mealFreshness ?rt pickup m = Num 0)
               \<and> (plannedDate m = pickup \<longrightarrow> mealFreshness ?rt pickup m = Num 100)
               \<and> (of_int (plannedDate m - pickup) / of_int MS_PER_DAY = maxDays e
                    \<longrightarrow> mealFreshness ?rt pickup m = Num 50)
               \<and> ((0::rat) \<le> of_int (plannedDate m - pickup) / of_int MS_PER_DAY
                    \<and> of_int (plannedDate m - pickup) / of_int MS_PER_DAY \<le> maxDays e
                    \<longrightarrow> mealFreshness ?rt pickup m
                          = Num (100 - (of_int (plannedDate m - pickup) / of_int MS_PER_DAY)
                                         / maxDays e * 50)
                        \<and> 50 \<le> 100 - (of_int (plannedDate m - pickup) / of_int MS_PER_DAY)
                                        / maxDays e * 50
                        \<and> 100 - (of_int (plannedDate m - pickup) / of_int MS_PER_DAY)
                                  / maxDays e * 50 \<le> 100)
               \<and> (maxDays e < of_int (plannedDate m - pickup) / of_int MS_PER_DAY
                    \<longrightarrow> mealFreshness ?rt pickup m
                          = Num (max 0 (50 - min 100 ((of_int (plannedDate m - pickup)
                                                         / of_int MS_PER_DAY - maxDays e) * 20)))
                        \<and> 0 \<le> max 0 (50 - min 100 ((of_int (plannedDate m - pickup)
                                                        / of_int MS_PER_DAY - maxDays e) * 20))
                        \<and> max 0 (50 - min 100 ((of_int (plannedDate m - pickup)
                                                  / of_int MS_PER_DAY - maxDays e) * 20)) < 50)"
    if mem: "m \<in> set meals" for m
  proof -
    obtain e where en: "getShelfLife (meal_category m) = Entry e"
      using assms(2) mem by (cases "getShelfLife (meal_category m)") auto
    define gapDays :: rat where "gapDays = of_int (plannedDate m - pickup) / of_int MS_PER_DAY"
    define shelf where "shelf = maxDays e"
    note c = mealFreshness_exact_cases[OF ex en gapDays_def shelf_def]
    have z: "plannedDate m = pickup \<longrightarrow> mealFreshness ?rt pickup m = Num 100"
    proof
      assume "plannedDate m = pickup"
      then have "gapDays = 0" unfolding gapDays_def by simp
      then show "mealFreshness ?rt pickup m = Num 100" using c(1) c(3) by simp
    qed
    have ed: "gapDays = shelf \<longrightarrow> mealFreshness ?rt pickup m = Num 50"
    proof
      assume "gapDays = shelf"
      then show "mealFreshness ?rt pickup m = Num 50" using c(1) c(3) by simp
    qed
    have gen: "mealFreshness rt pickup m
                 = (let gapDays = fl rt (fl rt (of_int (plannedDate m - pickup))
                                          / of_int MS_PER_DAY);
                        shelf = maxDays e
                    in if gapDays < 0 then Num 0
                       else if gapDays \<le> shelf
                       then Num (max 0 (fl rt (100 - fl rt (fl rt (gapDays / shelf) * 50))))
                       else Num (max 0 (fl rt (50 - min 100
                                                (fl rt (fl rt (gapDays - shelf) * 20))))))"
      unfolding mealFreshness_def lookup_maxDays_def by (simp add: Let_def en)
    show ?thesis
      using en gen c z ed unfolding gapDays_def shelf_def by blast
  qed
  show ?thesis
    by (intro conjI ballI p1 p2 p3) (use per in blast)
qed

theorem C3_witness:
  "twoSeafoodMeals \<noteq> []
   \<and> getShelfLife ''Seafood'' \<noteq> InheritedMember
   \<and> mealFreshness (exactArithmetic nodeUTC) baseDate (twoSeafoodMeals ! 0) = Num 100
   \<and> mealFreshness (exactArithmetic nodeUTC) baseDate (twoSeafoodMeals ! 1) = Num 0
   \<and> computeFreshnessScore (exactArithmetic nodeUTC) baseDate
        [makeGroceryItem ''Salmon'' ''Seafood''] twoSeafoodMeals = Num 50
   \<and> computeFreshnessScore nodeUTC baseDate [makeGroceryItem ''Salmon'' ''Seafood''] twoSeafoodMeals
       = Num 50"
proof -
  have ne: "twoSeafoodMeals \<noteq> []" by (simp add: twoSeafoodMeals_def)
  have ok: "getShelfLife ''Seafood'' \<noteq> InheritedMember" by code_simp
  then have hyp: "\<forall>m \<in> set twoSeafoodMeals. getShelfLife (meal_category m) \<noteq> InheritedMember"
    by (simp add: twoSeafoodMeals_def)
  have a: "mealFreshness (exactArithmetic nodeUTC) baseDate (twoSeafoodMeals ! 0) = Num 100"
    by code_simp
  have b: "mealFreshness (exactArithmetic nodeUTC) baseDate (twoSeafoodMeals ! 1) = Num 0"
    by code_simp
  have d: "computeFreshnessScore nodeUTC baseDate [makeGroceryItem ''Salmon'' ''Seafood'']
             twoSeafoodMeals = Num 50"
    by code_simp
  from C3_freshness_mean_of_meal_scores
         [OF ne hyp, of nodeUTC baseDate "[makeGroceryItem ''Salmon'' ''Seafood'']"]
  obtain scores where mp: "map (mealFreshness (exactArithmetic nodeUTC) baseDate) twoSeafoodMeals
                             = map Num scores"
    and mean: "computeFreshnessScore (exactArithmetic nodeUTC) baseDate
                 [makeGroceryItem ''Salmon'' ''Seafood''] twoSeafoodMeals
                 = Num (sum_list scores / of_nat (length twoSeafoodMeals))"
    by blast
  have "map Num scores = [Num 100, Num 0]"
    using mp a b by (simp add: twoSeafoodMeals_def)
  then have "scores = [100, 0]" by auto
  then have c: "computeFreshnessScore (exactArithmetic nodeUTC) baseDate
                  [makeGroceryItem ''Salmon'' ''Seafood''] twoSeafoodMeals = Num 50"
    using mean by (simp add: twoSeafoodMeals_def)
  show ?thesis by (intro conjI ne ok a b c d)
qed

end
